theory Spec2Isabelle
  imports Main "HOL-Library.Word"
begin

unbundle bit_operations_syntax

section \<open>Constants of mfc_extract_keys.c\<close>

type_synonym byte = "8 word"

definition UID_SIZE :: nat where "UID_SIZE = 8"
definition KEY_SIZE :: nat where "KEY_SIZE = 6"
definition KEYS_1K :: nat where "KEYS_1K = 16"
definition KEYS_4K :: nat where "KEYS_4K = 40"
definition FILE_SIZE_1K :: nat where "FILE_SIZE_1K = 1024"
definition FILE_SIZE_4K :: nat where "FILE_SIZE_4K = 4096"

section \<open>Helpers: bytes_to_num and the printf conversion %08lx\<close>

text \<open>
  \<open>bytes_to_num(src, len)\<close>: the loop \<open>while (len--) { num = (num << 8) | *src; src++; }\<close>.
  The first argument is the memory from \<open>src\<close> to the end of its block. The last equation
  is a read past the end of the block; every caller below raises its fault flag when the
  block is too short, so the value chosen there is never used.
\<close>

fun bytes_to_num_loop :: "byte list \<Rightarrow> nat \<Rightarrow> 64 word \<Rightarrow> 64 word" where
  "bytes_to_num_loop src 0 num = num"
| "bytes_to_num_loop (b # src) (Suc len) num =
     bytes_to_num_loop src len (push_bit 8 num OR ucast b)"
| "bytes_to_num_loop [] (Suc len) num = num"

definition bytes_to_num :: "byte list \<Rightarrow> nat \<Rightarrow> 64 word" where
  "bytes_to_num src len = bytes_to_num_loop src len 0"

definition hex_digit :: "nat \<Rightarrow> char" where
  "hex_digit d = ''0123456789abcdef'' ! (d mod 16)"

fun hex_of :: "nat \<Rightarrow> string" where
  "hex_of n = (if n < 16 then [hex_digit n] else hex_of (n div 16) @ [hex_digit (n mod 16)])"

declare hex_of.simps [simp del]

text \<open>The conversion \<open>%08lx\<close>: lower-case hexadecimal, padded with zeros to 8 digits.\<close>

definition hex08 :: "64 word \<Rightarrow> string" where
  "hex08 w = (let ds = hex_of (unat w) in replicate (8 - length ds) (CHR ''0'') @ ds)"

section \<open>Memory blocks\<close>

text \<open>
  A block returned by \<open>malloc\<close> holds whatever the heap held before: its cells are given
  by a function of the environment.
\<close>

definition malloc_block :: "(nat \<Rightarrow> byte) \<Rightarrow> nat \<Rightarrow> byte list" where
  "malloc_block g n = map g [0..<n]"

text \<open>
  Writing the bytes \<open>bs\<close> at index \<open>p\<close> of a block. A write that would leave the block is
  not performed here; the caller raises its fault flag.
\<close>

definition store :: "byte list \<Rightarrow> nat \<Rightarrow> byte list \<Rightarrow> byte list" where
  "store buf p bs =
     (if p + length bs \<le> length buf then take p buf @ bs @ drop (p + length bs) buf else buf)"

text \<open>\<open>memmove(dst + p, src, n)\<close>.\<close>

definition memmove :: "byte list \<Rightarrow> nat \<Rightarrow> byte list \<Rightarrow> nat \<Rightarrow> byte list" where
  "memmove dst p src n = store dst p (take n src)"

section \<open>The input stream\<close>

text \<open>
  A \<open>FILE\<close> opened for reading: the bytes of the file, the position, and a log of
  every \<open>fread\<close> (position and number of bytes asked for).
\<close>

record FILE =
  contents :: "byte list"
  fpos :: nat
  freads :: "(nat \<times> nat) list"

definition fseek_set :: "nat \<Rightarrow> FILE \<Rightarrow> FILE" where
  "fseek_set off f = f\<lparr>fpos := off\<rparr>"

definition fseek_cur :: "nat \<Rightarrow> FILE \<Rightarrow> FILE" where
  "fseek_cur off f = f\<lparr>fpos := fpos f + off\<rparr>"

definition fseek_end :: "FILE \<Rightarrow> FILE" where
  "fseek_end f = f\<lparr>fpos := length (contents f)\<rparr>"

definition ftell :: "FILE \<Rightarrow> nat" where
  "ftell f = fpos f"

text \<open>\<open>fread(ptr, 1, n, file)\<close>: at most \<open>n\<close> bytes, fewer at the end of the file.\<close>

definition fread :: "nat \<Rightarrow> FILE \<Rightarrow> byte list \<times> FILE" where
  "fread n f =
     (let bs = take n (drop (fpos f) (contents f))
      in (bs, f\<lparr>fpos := fpos f + length bs, freads := freads f @ [(fpos f, n)]\<rparr>))"

section \<open>The environment and the output side\<close>

datatype error =
    ShowVersion | ShowHelp | BadOption | Usage
  | CannotOpen | WrongSize | NoMemory
  | CannotOpenForWriting string | CannotWrite string

datatype handle = InputFile | OutputFile string

text \<open>
  What the program cannot decide: whether the input opens (and its bytes), whether the
  \<open>malloc\<close> of a block succeeds and what the block then holds (block 0 is \<open>uid\<close>, 1 is
  \<open>a_keys\<close>, 2 is \<open>b_keys\<close>, 3 is the Proxmark \<open>output\<close>), whether an output file opens
  and whether \<open>fwrite\<close> writes it (all of it, or nothing with result 0).
\<close>

record env =
  fopen_rb :: "string \<Rightarrow> byte list option"
  malloc_ok :: "nat \<Rightarrow> bool"
  garbage :: "nat \<Rightarrow> nat \<Rightarrow> byte"
  fopen_wb :: "string \<Rightarrow> bool"
  fwrite_ok :: "string \<Rightarrow> bool"

text \<open>
  The handles now open, the files created by \<open>fopen(.., "wb")\<close>, the files written, and
  a flag raised when \<open>fwrite\<close> or \<open>memmove\<close> is given more bytes than a block holds.
\<close>

record world =
  opened :: "handle list"
  created :: "string list"
  written :: "(string \<times> byte list) list"
  overrun :: bool

definition world0 :: world where
  "world0 = \<lparr>opened = [], created = [], written = [], overrun = False\<rparr>"

definition fclose :: "handle \<Rightarrow> world \<Rightarrow> world" where
  "fclose h w = w\<lparr>opened := remove1 h (opened w)\<rparr>"

text \<open>
  \<open>fwrite(keys, 1, size, file)\<close> returns the number of bytes written: all of them, or 0
  when it fails. With \<open>size\<close> 0 the result is 0 as well.
\<close>

definition fwrite :: "env \<Rightarrow> string \<Rightarrow> nat \<Rightarrow> nat" where
  "fwrite e filename sz = (if fwrite_ok e filename then sz else 0)"

text \<open>
  \<open>write_keys(keys, filename, size)\<close>, lines 90-106 (\<open>sz\<close> is its \<open>size\<close>). The result
  \<open>None\<close> is \<open>return 0\<close>; \<open>Some e\<close> is the message \<open>e\<close> on stderr and \<open>return 1\<close>. The
  source takes the result 0 of \<open>fwrite\<close> as the failure (\<open>!fwrite(...)\<close>).
\<close>

definition write_keys :: "env \<Rightarrow> byte list \<Rightarrow> string \<Rightarrow> nat \<Rightarrow> world \<Rightarrow> error option \<times> world" where
  "write_keys e keys filename sz w =
     (if \<not> fopen_wb e filename then (Some (CannotOpenForWriting filename), w)
      else
        let w1 = w\<lparr>opened := OutputFile filename # opened w,
                   created := created w @ [filename]\<rparr>
        in if fwrite e filename sz = 0 then (Some (CannotWrite filename), w1)
           else
             let w2 = w1\<lparr>written := written w1 @ [(filename, take sz keys)],
                         overrun := (overrun w1 \<or> length keys < sz)\<rparr>
             in (None, fclose (OutputFile filename) w2))"

section \<open>The key loop of main, lines 162-199\<close>

text \<open>
  The local variables of the block at lines 153-199 and the stream \<open>file\<close> (here
  \<open>infile\<close>), with what the block prints: the header (card type and UID number) and one
  row per sector (index, A key, B key).
\<close>

record locals =
  infile :: FILE
  uid :: "byte list"
  a_keys :: "byte list"
  b_keys :: "byte list"
  aptr :: nat
  bptr :: nat
  offset :: byte
  header :: "byte \<times> 64 word"
  rows :: "(nat \<times> 64 word \<times> 64 word) list"
  fault :: bool

text \<open>
  One iteration, lines 177-198. The flag \<open>fault\<close> is raised when the KEY_SIZE bytes at
  \<open>aptr\<close> or \<open>bptr\<close> do not lie inside their block.
\<close>

definition loop_body :: "nat \<Rightarrow> locals \<Rightarrow> locals" where
  "loop_body i s =
     (let f1 = fseek_cur (unat (offset s)) (infile s);
          ra = fread KEY_SIZE f1;
          a1 = store (a_keys s) (aptr s) (fst ra);
          f3 = fseek_cur 0x04 (snd ra);
          rb = fread KEY_SIZE f3;
          b1 = store (b_keys s) (bptr s) (fst rb)
      in s\<lparr>infile := snd rb,
            a_keys := a1,
            b_keys := b1,
            rows := rows s @ [(i, bytes_to_num (drop (aptr s) a1) KEY_SIZE,
                                  bytes_to_num (drop (bptr s) b1) KEY_SIZE)],
            aptr := aptr s + KEY_SIZE,
            bptr := bptr s + KEY_SIZE,
            offset := (if i < 31 then 0x30 else 0xF0),
            fault := (fault s \<or> length (a_keys s) < aptr s + KEY_SIZE
                              \<or> length (b_keys s) < bptr s + KEY_SIZE)\<rparr>)"

text \<open>
  \<open>for (i = 0; i < n; i++)\<close>. The counter is a \<open>uint8_t\<close>; \<open>n\<close> is 16 or 40, so \<open>i++\<close>
  never wraps and the counter is a natural number here.
\<close>

function key_loop :: "nat \<Rightarrow> nat \<Rightarrow> locals \<Rightarrow> locals" where
  "key_loop n i s = (if i < n then key_loop n (Suc i) (loop_body i s) else s)"
  by pat_completeness auto
termination
  by (relation "measure (\<lambda>(n, i, s). n - i)") auto

declare key_loop.simps [simp del]

section \<open>main\<close>

text \<open>Lines 147-150: the size of the file sets the type and region bits of \<open>options\<close>.\<close>

definition size_options :: "nat \<Rightarrow> byte \<Rightarrow> byte" where
  "size_options filelength options =
     (if filelength = FILE_SIZE_1K then options OR 0x61
      else if filelength = FILE_SIZE_4K then options OR 0xF4
      else options)"

text \<open>\<open>options & 0xF0\<close>: the size in bytes of each key buffer.\<close>

definition region :: "byte \<Rightarrow> nat" where
  "region options = unat (options AND 0xF0)"

text \<open>The bound of the loop: \<open>(options & 0x05) == 0x01 ? KEYS_1K : KEYS_4K\<close>.\<close>

definition key_count :: "byte \<Rightarrow> nat" where
  "key_count options = (if options AND 0x05 = 0x01 then KEYS_1K else KEYS_4K)"

text \<open>Lines 162-199, once the three blocks (0, 1 and 2) are allocated.\<close>

definition read_keys :: "env \<Rightarrow> byte \<Rightarrow> FILE \<Rightarrow> locals" where
  "read_keys e options f =
     (let uid0 = malloc_block (garbage e 0) UID_SIZE;
          a0 = malloc_block (garbage e 1) (region options);
          b0 = malloc_block (garbage e 2) (region options);
          ru = fread UID_SIZE (fseek_set 0x00 f);
          uid1 = store uid0 0 (fst ru);
          f3 = fseek_set 0x30 (snd ru);
          s0 = \<lparr>infile = f3, uid = uid1, a_keys = a0, b_keys = b0, aptr = 0, bptr = 0,
                offset = 0, header = (options AND 0x05, bytes_to_num uid1 4),
                rows = [], fault = False\<rparr>
      in key_loop (key_count options) 0 s0)"

text \<open>
  The two output layouts. For mfocGUI (lines 208-217) the two buffers are handed to
  \<open>write_keys\<close> as they are, with \<open>options & 0xF0\<close> as the number of bytes of each: these
  are the bytes \<open>fwrite\<close> takes. For Proxmark (lines 219-228) a block of twice that size is
  allocated (block 3) and both buffers are copied into it; \<open>None\<close> is the branch
  "Can not allocate enough memory!".
\<close>

definition encode_gui :: "byte \<Rightarrow> byte list \<Rightarrow> byte list \<Rightarrow> byte list \<times> byte list" where
  "encode_gui options a b = (take (region options) a, take (region options) b)"

definition encode_linear :: "env \<Rightarrow> byte \<Rightarrow> byte list \<Rightarrow> byte list \<Rightarrow> byte list option" where
  "encode_linear e options a b =
     (if malloc_ok e 3 then
        let output = malloc_block (garbage e 3) (region options * 2);
            output1 = memmove output 0 a (region options)
        in Some (memmove output1 (region options) b (region options))
      else None)"

text \<open>Lines 206-232: the output files.\<close>

definition emit :: "env \<Rightarrow> byte \<Rightarrow> locals \<Rightarrow> world \<Rightarrow> error option \<times> world" where
  "emit e options s w =
     (let num = bytes_to_num (uid s) 4 in
      if options AND 0x0A = 0x02 then
        (case write_keys e (a_keys s) (''a'' @ hex08 num @ ''.dump'') (region options) w of
           (Some err, w1) \<Rightarrow> (Some err, w1)
         | (None, w1) \<Rightarrow>
             write_keys e (b_keys s) (''b'' @ hex08 num @ ''.dump'') (region options) w1)
      else
        (case encode_linear e options (a_keys s) (b_keys s) of
           None \<Rightarrow> (Some NoMemory, w)
         | Some output \<Rightarrow>
             let w1 = w\<lparr>overrun := (overrun w \<or> length (a_keys s) < region options
                                              \<or> length (b_keys s) < region options)\<rparr>
             in write_keys e output (hex08 num @ ''.bin'') (region options * 2) w1))"

text \<open>
  The outcome of a run: \<open>result = None\<close> is \<open>return 0\<close>, \<open>Some e\<close> is \<open>return 1\<close> after the
  message \<open>e\<close>; the final \<open>options\<close> and locals when the key block was run; the log of
  reads of the input; the output side.
\<close>

record outcome =
  result :: "error option"
  table :: "(byte \<times> locals) option"
  reads :: "(nat \<times> nat) list"
  io :: world

definition stop :: "error \<Rightarrow> outcome" where
  "stop err = \<lparr>result = Some err, table = None, reads = [], io = world0\<rparr>"

text \<open>Lines 143-243, with \<open>options\<close> as left by the option loop.\<close>

definition main_body :: "env \<Rightarrow> byte \<Rightarrow> string \<Rightarrow> outcome" where
  "main_body e options input_file =
     (case fopen_rb e input_file of
        None \<Rightarrow> stop CannotOpen
      | Some raw \<Rightarrow>
          let w1 = world0\<lparr>opened := [InputFile]\<rparr>;
              f1 = fseek_end \<lparr>contents = raw, fpos = 0, freads = []\<rparr>;
              filelength = ftell f1;
              options1 = size_options filelength options
          in if options1 AND 0x05 \<noteq> 0 then
               if malloc_ok e 0 \<and> malloc_ok e 1 \<and> malloc_ok e 2 then
                 let s = read_keys e options1 f1;
                     w2 = fclose InputFile w1;
                     r = emit e options1 s w2
                 in \<lparr>result = fst r, table = Some (options1, s),
                     reads = freads (infile s), io = snd r\<rparr>
               else \<lparr>result = Some NoMemory, table = None, reads = freads f1, io = w1\<rparr>
             else \<lparr>result = Some WrongSize, table = None, reads = freads f1,
                   io = fclose InputFile w1\<rparr>)"

text \<open>
  The option loop, lines 116-134: the characters \<open>getopt\<close> returns, in order.
\<close>

fun getopt_loop :: "char list \<Rightarrow> byte \<Rightarrow> error + byte" where
  "getopt_loop [] options = Inr options"
| "getopt_loop (ch # rest) options =
     (if ch = CHR ''m'' then getopt_loop rest (options OR 0x02)
      else if ch = CHR ''p'' then getopt_loop rest (options OR 0x08)
      else if ch = CHR ''v'' then Inl ShowVersion
      else if ch = CHR ''h'' then Inl ShowHelp
      else Inl BadOption)"

text \<open>
  \<open>main\<close>: the option characters, the argument \<open>argv[optind]\<close> (\<open>None\<close> when absent).
  The texts of \<open>print_usage\<close>, \<open>print_version\<close> and \<open>print_seperator\<close> change no state and
  are left out; of the console table the header and the rows are kept in \<open>locals\<close>.
  Failures of \<open>fseek\<close>, \<open>ftell\<close> and \<open>fclose\<close> are not modelled.
\<close>

definition main :: "env \<Rightarrow> char list \<Rightarrow> string option \<Rightarrow> outcome" where
  "main e opts input_file =
     (case getopt_loop opts 0 of
        Inl err \<Rightarrow> stop err
      | Inr options \<Rightarrow>
          (case input_file of
             None \<Rightarrow> stop Usage
           | Some path \<Rightarrow> if options = 0 then stop Usage else main_body e options path))"

section \<open>The layout of the specification\<close>

text \<open>
  These definitions follow the words of the specification (sections 4.1 and 4.2), to be
  compared with the loop of the source. \<open>blockStride\<close> is the distance from the end of
  one trailer to the start of the next; \<open>trailerCursor i\<close> is the cursor at which index
  \<open>i\<close> starts: \<open>firstTrailerOffset\<close> at first, then after each index 6 bytes of keyA, 4
  bytes skipped, 6 bytes of keyB and the stride.
\<close>

definition firstTrailerOffset :: nat where
  "firstTrailerOffset = 0x30"

definition blockStride :: "nat \<Rightarrow> nat" where
  "blockStride i = (if i < 31 then 0x30 else 0xF0)"

primrec trailerCursor :: "nat \<Rightarrow> nat" where
  "trailerCursor 0 = firstTrailerOffset"
| "trailerCursor (Suc i) = trailerCursor i + 6 + 4 + 6 + blockStride i"

definition keyA :: "byte list \<Rightarrow> nat \<Rightarrow> byte list" where
  "keyA raw i = take 6 (drop (trailerCursor i) raw)"

definition keyB :: "byte list \<Rightarrow> nat \<Rightarrow> byte list" where
  "keyB raw i = take 6 (drop (trailerCursor i + 6 + 4) raw)"

text \<open>The reads of the first \<open>n\<close> indices: position and length of each.\<close>

definition key_reads :: "nat \<Rightarrow> (nat \<times> nat) list" where
  "key_reads n = concat (map (\<lambda>i. [(trailerCursor i, 6), (trailerCursor i + 6 + 4, 6)]) [0..<n])"

text \<open>
  The key table as the program holds it: the two buffers and \<open>options\<close>. The key of
  sector \<open>i\<close> is the KEY_SIZE bytes at \<open>a_keys + i * KEY_SIZE\<close> (and the same in
  \<open>b_keys\<close>), where the loop put it. A table is well formed when \<open>options\<close> names a card
  type and both buffers hold exactly the keys of that type.
\<close>

definition key_at :: "byte list \<Rightarrow> nat \<Rightarrow> byte list" where
  "key_at buf i = take KEY_SIZE (drop (i * KEY_SIZE) buf)"

definition well_formed :: "byte \<Rightarrow> byte list \<Rightarrow> byte list \<Rightarrow> bool" where
  "well_formed options a b \<longleftrightarrow>
     (options AND 0x05 = 0x01 \<or> options AND 0x05 = 0x04) \<and>
     region options = key_count options * KEY_SIZE \<and>
     length a = region options \<and> length b = region options"

text \<open>
  The invariant of the key loop before index \<open>i\<close> (of \<open>n\<close>), on a dump \<open>raw\<close> whose
  earlier reads were \<open>r0\<close>.
\<close>

definition loop_inv :: "byte list \<Rightarrow> nat \<Rightarrow> (nat \<times> nat) list \<Rightarrow> nat \<Rightarrow> locals \<Rightarrow> bool" where
  "loop_inv raw n r0 i s \<longleftrightarrow>
     contents (infile s) = raw \<and>
     fpos (infile s) + unat (offset s) = trailerCursor i \<and>
     freads (infile s) = r0 @ key_reads i \<and>
     aptr s = 6 * i \<and> bptr s = 6 * i \<and>
     length (a_keys s) = 6 * n \<and> length (b_keys s) = 6 * n \<and>
     take (6 * i) (a_keys s) = concat (map (keyA raw) [0..<i]) \<and>
     take (6 * i) (b_keys s) = concat (map (keyB raw) [0..<i]) \<and>
     rows s = map (\<lambda>j. (j, bytes_to_num (keyA raw j) 6, bytes_to_num (keyB raw j) 6)) [0..<i] \<and>
     \<not> fault s"

text \<open>
  An environment for concrete runs: the input file holds \<open>raw\<close>, every allocation
  succeeds on zeroed memory, every output file opens and is written.
\<close>

definition env_of :: "byte list \<Rightarrow> env" where
  "env_of raw = \<lparr>fopen_rb = (\<lambda>_. Some raw), malloc_ok = (\<lambda>_. True),
                 garbage = (\<lambda>_ _. 0), fopen_wb = (\<lambda>_. True), fwrite_ok = (\<lambda>_. True)\<rparr>"

text \<open>A 1024-byte dump: UID DE AD BE EF, the trailer of sector 0 filled in.\<close>

definition sample_dump :: "byte list" where
  "sample_dump = [0xDE, 0xAD, 0xBE, 0xEF] @ replicate 44 0 @
     [0xA1, 0xA2, 0xA3, 0xA4, 0xA5, 0xA6, 0xFF, 0xFF, 0x07, 0x80,
      0xB1, 0xB2, 0xB3, 0xB4, 0xB5, 0xB6] @ replicate 960 0"

text \<open>
  A well-formed 1K table for concrete runs of the encoders (\<open>options\<close> is then 0x69:
  Proxmark mode, type 1K, 96 bytes), locals that hold it, and three environments on the
  sample dump: one where
  the Proxmark block cannot be allocated, one where \<open>fwrite\<close> writes nothing, one where
  no memory can be allocated at all.
\<close>

definition sample_a :: "byte list" where "sample_a = replicate 96 0x11"

definition sample_b :: "byte list" where "sample_b = replicate 96 0x22"

definition sample_locals :: locals where
  "sample_locals =
     \<lparr>infile = \<lparr>contents = sample_dump, fpos = 1024, freads = []\<rparr>,
      uid = take 8 sample_dump, a_keys = sample_a, b_keys = sample_b,
      aptr = 96, bptr = 96, offset = 0x30, header = (0x01, 0xDEADBEEF),
      rows = [], fault = False\<rparr>"

definition env_no_memory :: env where
  "env_no_memory = (env_of sample_dump)\<lparr>malloc_ok := (\<lambda>k. k < 3)\<rparr>"

definition env_write_fails :: env where
  "env_write_fails = (env_of sample_dump)\<lparr>fwrite_ok := (\<lambda>_. False)\<rparr>"

definition env_no_key_memory :: env where
  "env_no_key_memory = (env_of sample_dump)\<lparr>malloc_ok := (\<lambda>_. False)\<rparr>"

section \<open>The key loop\<close>

lemma trailerCursor_closed:
  "trailerCursor i = (if i < 32 then 48 + 64 * i else 2288 + 256 * (i - 32))"
  by (induction i) (auto simp: blockStride_def firstTrailerOffset_def)

lemma trailerCursor_1K: "i < 16 \<Longrightarrow> trailerCursor i + 16 \<le> 1024"
  by (simp add: trailerCursor_closed)

lemma trailerCursor_4K: "i < 40 \<Longrightarrow> trailerCursor i + 16 \<le> 4096"
  unfolding trailerCursor_closed by (cases "i < 32") simp_all

lemma bytes_to_num_loop_append:
  "n \<le> length xs \<Longrightarrow> bytes_to_num_loop (xs @ ys) n acc = bytes_to_num_loop xs n acc"
  by (induction xs n acc rule: bytes_to_num_loop.induct) auto

lemma bytes_to_num_append:
  "n \<le> length xs \<Longrightarrow> bytes_to_num (xs @ ys) n = bytes_to_num xs n"
  by (simp add: bytes_to_num_def bytes_to_num_loop_append)

lemma keyA_length: "trailerCursor i + 16 \<le> length raw \<Longrightarrow> length (keyA raw i) = 6"
  by (simp add: keyA_def)

lemma keyB_length: "trailerCursor i + 16 \<le> length raw \<Longrightarrow> length (keyB raw i) = 6"
  by (simp add: keyB_def)


lemma fread_in_bounds:
  "fpos f + n \<le> length (contents f) \<Longrightarrow>
   fread n f = (take n (drop (fpos f) (contents f)),
                f\<lparr>fpos := fpos f + n, freads := freads f @ [(fpos f, n)]\<rparr>)"
  by (simp add: fread_def Let_def)

lemma store_in_bounds:
  "p + length bs \<le> length buf \<Longrightarrow> store buf p bs = take p buf @ bs @ drop (p + length bs) buf"
  by (simp add: store_def)

lemma loop_body_eq:
  assumes c: "contents (infile s) = raw"
    and p: "fpos (infile s) + unat (offset s) = trailerCursor i"
    and r: "trailerCursor i + 16 \<le> length raw"
    and a: "aptr s + 6 \<le> length (a_keys s)"
    and b: "bptr s + 6 \<le> length (b_keys s)"
  shows "loop_body i s =
     s\<lparr>infile := (infile s)\<lparr>fpos := trailerCursor i + 16,
                    freads := freads (infile s) @ [(trailerCursor i, 6), (trailerCursor i + 6 + 4, 6)]\<rparr>,
       a_keys := take (aptr s) (a_keys s) @ keyA raw i @ drop (aptr s + 6) (a_keys s),
       b_keys := take (bptr s) (b_keys s) @ keyB raw i @ drop (bptr s + 6) (b_keys s),
       rows := rows s @ [(i, bytes_to_num (keyA raw i) 6, bytes_to_num (keyB raw i) 6)],
       aptr := aptr s + 6,
       bptr := bptr s + 6,
       offset := (if i < 31 then 0x30 else 0xF0),
       fault := fault s\<rparr>"
proof -
  let ?f1 = "fseek_cur (unat (offset s)) (infile s)"
  have f1: "?f1 = (infile s)\<lparr>fpos := trailerCursor i\<rparr>"
    using p by (simp add: fseek_cur_def)
  have ra: "fread KEY_SIZE ?f1 =
      (keyA raw i, (infile s)\<lparr>fpos := trailerCursor i + 6, freads := freads (infile s) @ [(trailerCursor i, 6)]\<rparr>)"
    unfolding f1 KEY_SIZE_def using c r by (simp add: fread_in_bounds keyA_def)
  let ?f2 = "(infile s)\<lparr>fpos := trailerCursor i + 6, freads := freads (infile s) @ [(trailerCursor i, 6)]\<rparr>"
  have f3: "fseek_cur 0x04 ?f2 = (infile s)\<lparr>fpos := trailerCursor i + 6 + 4, freads := freads (infile s) @ [(trailerCursor i, 6)]\<rparr>"
    by (simp add: fseek_cur_def)
  have rb: "fread KEY_SIZE (fseek_cur 0x04 ?f2) =
      (keyB raw i, (infile s)\<lparr>fpos := trailerCursor i + 16,
          freads := freads (infile s) @ [(trailerCursor i, 6), (trailerCursor i + 6 + 4, 6)]\<rparr>)"
    unfolding f3 KEY_SIZE_def using c r by (simp add: fread_in_bounds keyB_def)
  have la: "length (keyA raw i) = 6" using r by (rule keyA_length)
  have lb: "length (keyB raw i) = 6" using r by (rule keyB_length)
  have sa: "store (a_keys s) (aptr s) (keyA raw i) =
      take (aptr s) (a_keys s) @ keyA raw i @ drop (aptr s + 6) (a_keys s)"
    using a la by (simp add: store_in_bounds)
  have sb: "store (b_keys s) (bptr s) (keyB raw i) =
      take (bptr s) (b_keys s) @ keyB raw i @ drop (bptr s + 6) (b_keys s)"
    using b lb by (simp add: store_in_bounds)
  have na: "bytes_to_num (drop (aptr s) (take (aptr s) (a_keys s) @ keyA raw i @ drop (aptr s + 6) (a_keys s))) KEY_SIZE
      = bytes_to_num (keyA raw i) 6"
    using a la by (simp add: KEY_SIZE_def bytes_to_num_append)
  have nb: "bytes_to_num (drop (bptr s) (take (bptr s) (b_keys s) @ keyB raw i @ drop (bptr s + 6) (b_keys s))) KEY_SIZE
      = bytes_to_num (keyB raw i) 6"
    using b lb by (simp add: KEY_SIZE_def bytes_to_num_append)
  have fl: "\<not> length (a_keys s) < aptr s + KEY_SIZE" "\<not> length (b_keys s) < bptr s + KEY_SIZE"
    using a b by (simp_all add: KEY_SIZE_def)
  show ?thesis
    unfolding loop_body_def Let_def ra fst_conv snd_conv rb sa sb na nb
    using fl by (simp add: KEY_SIZE_def)
qed


lemma key_reads_Suc:
  "key_reads (Suc i) = key_reads i @ [(trailerCursor i, 6), (trailerCursor i + 6 + 4, 6)]"
  by (simp add: key_reads_def)

lemma take_filled:
  assumes "take k buf = pre" and "k + length key \<le> length buf"
  shows "take (k + length key) (take k buf @ key @ drop (k + length key) buf) = pre @ key"
proof -
  have "length (take k buf) = k" using assms(2) by simp
  then show ?thesis using assms(1) by simp
qed

lemma length_filled:
  "k + length key \<le> length buf \<Longrightarrow>
   length (take k buf @ key @ drop (k + length key) buf) = length buf"
  by simp

lemma loop_inv_step:
  assumes inv: "loop_inv raw n r0 i s" and i: "i < n" and r: "trailerCursor i + 16 \<le> length raw"
  shows "loop_inv raw n r0 (Suc i) (loop_body i s)"
proof -
  have c: "contents (infile s) = raw"
    and p: "fpos (infile s) + unat (offset s) = trailerCursor i"
    and fr: "freads (infile s) = r0 @ key_reads i"
    and ap: "aptr s = 6 * i" and bp: "bptr s = 6 * i"
    and al: "length (a_keys s) = 6 * n" and bl: "length (b_keys s) = 6 * n"
    and ta: "take (6 * i) (a_keys s) = concat (map (keyA raw) [0..<i])"
    and tb: "take (6 * i) (b_keys s) = concat (map (keyB raw) [0..<i])"
    and ro: "rows s = map (\<lambda>j. (j, bytes_to_num (keyA raw j) 6, bytes_to_num (keyB raw j) 6)) [0..<i]"
    and nf: "\<not> fault s"
    using inv by (simp_all add: loop_inv_def)
  have a: "aptr s + 6 \<le> length (a_keys s)" and b: "bptr s + 6 \<le> length (b_keys s)"
    using i ap bp al bl by simp_all
  note eq = loop_body_eq [OF c p r a b]
  have la: "length (keyA raw i) = 6" using r by (rule keyA_length)
  have lb: "length (keyB raw i) = 6" using r by (rule keyB_length)
  have ka: "6 * i + length (keyA raw i) \<le> length (a_keys s)" using a ap la by simp
  have kb: "6 * i + length (keyB raw i) \<le> length (b_keys s)" using b bp lb by simp
  have six: "6 * Suc i = 6 * i + 6" by simp
  have ta': "take (6 * Suc i) (take (6 * i) (a_keys s) @ keyA raw i @ drop (6 * i + 6) (a_keys s))
      = concat (map (keyA raw) [0..<Suc i])"
    using take_filled [OF ta ka] unfolding la six by simp
  have tb': "take (6 * Suc i) (take (6 * i) (b_keys s) @ keyB raw i @ drop (6 * i + 6) (b_keys s))
      = concat (map (keyB raw) [0..<Suc i])"
    using take_filled [OF tb kb] unfolding lb six by simp
  have la': "length (take (6 * i) (a_keys s) @ keyA raw i @ drop (6 * i + 6) (a_keys s)) = 6 * n"
    using length_filled [OF ka] unfolding la al by simp
  have lb': "length (take (6 * i) (b_keys s) @ keyB raw i @ drop (6 * i + 6) (b_keys s)) = 6 * n"
    using length_filled [OF kb] unfolding lb bl by simp
  have off: "trailerCursor i + 16 + unat (if i < 31 then 0x30 else 0xF0 :: byte) = trailerCursor (Suc i)"
    by (simp add: blockStride_def)
  have ro': "rows s @ [(i, bytes_to_num (keyA raw i) 6, bytes_to_num (keyB raw i) 6)]
      = map (\<lambda>j. (j, bytes_to_num (keyA raw j) 6, bytes_to_num (keyB raw j) 6)) [0..<Suc i]"
    by (simp add: ro)
  have fr': "freads (infile s) @ [(trailerCursor i, 6), (trailerCursor i + 6 + 4, 6)] = r0 @ key_reads (Suc i)"
    by (simp add: fr key_reads_Suc)
  let ?s' = "loop_body i s"
  have s1: "contents (infile ?s') = raw" by (simp add: eq c)
  have "fpos (infile ?s') = trailerCursor i + 16"
    and "offset ?s' = (if i < 31 then 0x30 else 0xF0)" by (simp_all add: eq)
  then have s2: "fpos (infile ?s') + unat (offset ?s') = trailerCursor (Suc i)"
    using off by (simp only:)
  have "freads (infile ?s') = freads (infile s) @ [(trailerCursor i, 6), (trailerCursor i + 6 + 4, 6)]"
    by (simp add: eq)
  then have s3: "freads (infile ?s') = r0 @ key_reads (Suc i)" using fr' by (simp only:)
  have s4: "aptr ?s' = 6 * Suc i" and s5: "bptr ?s' = 6 * Suc i" by (simp_all add: eq ap bp)
  have a': "a_keys ?s' = take (6 * i) (a_keys s) @ keyA raw i @ drop (6 * i + 6) (a_keys s)"
    and b': "b_keys ?s' = take (6 * i) (b_keys s) @ keyB raw i @ drop (6 * i + 6) (b_keys s)"
    by (simp_all add: eq ap bp)
  have s6: "length (a_keys ?s') = 6 * n" and s7: "length (b_keys ?s') = 6 * n"
    unfolding a' b' by (rule la', rule lb')
  have s8: "take (6 * Suc i) (a_keys ?s') = concat (map (keyA raw) [0..<Suc i])"
    and s9: "take (6 * Suc i) (b_keys ?s') = concat (map (keyB raw) [0..<Suc i])"
    unfolding a' b' by (rule ta', rule tb')
  have "rows ?s' = rows s @ [(i, bytes_to_num (keyA raw i) 6, bytes_to_num (keyB raw i) 6)]"
    by (simp add: eq)
  then have s10: "rows ?s' = map (\<lambda>j. (j, bytes_to_num (keyA raw j) 6, bytes_to_num (keyB raw j) 6)) [0..<Suc i]"
    using ro' by (simp only:)
  have s11: "\<not> fault ?s'" by (simp add: eq nf)
  show ?thesis
    unfolding loop_inv_def
    using s1 s2 s3 s4 s5 s6 s7 s8 s9 s10 s11 by (intro conjI)
qed

lemma loop_inv_loop:
  assumes "loop_inv raw n r0 i s" and "i \<le> n" and "\<forall>j<n. trailerCursor j + 16 \<le> length raw"
  shows "loop_inv raw n r0 n (key_loop n i s)"
  using assms
proof (induction n i s rule: key_loop.induct)
  case (1 n i s)
  show ?case
  proof (cases "i < n")
    case True
    with 1 have "loop_inv raw n r0 (Suc i) (loop_body i s)"
      by (simp add: loop_inv_step)
    with 1 True show ?thesis
      by (simp add: key_loop.simps [of n i])
  next
    case False
    then have "key_loop n i s = s" by (simp add: key_loop.simps [of n i])
    moreover from False 1 have "i = n" by simp
    ultimately show ?thesis using 1 by simp
  qed
qed

section \<open>Options and the body of main\<close>

lemma getopt_loop_modes:
  "set opts \<subseteq> {CHR ''m'', CHR ''p''} \<Longrightarrow>
   getopt_loop opts acc =
     Inr (acc OR (if CHR ''m'' \<in> set opts then 0x02 else 0) OR (if CHR ''p'' \<in> set opts then 0x08 else 0))"
proof (induction opts arbitrary: acc)
  case Nil
  then show ?case by simp
next
  case (Cons ch opts)
  then show ?case
    by (auto simp: or.assoc or.commute or.left_commute)
qed

lemma getopt_loop_nonempty:
  assumes "opts \<noteq> []" and "set opts \<subseteq> {CHR ''m'', CHR ''p''}"
  shows "getopt_loop opts 0 = Inr 0x02 \<or> getopt_loop opts 0 = Inr 0x08 \<or> getopt_loop opts 0 = Inr 0x0A"
proof -
  from assms obtain ch where "ch \<in> set opts" by (cases opts) auto
  with assms(2) have "CHR ''m'' \<in> set opts \<or> CHR ''p'' \<in> set opts" by auto
  then show ?thesis
    by (auto simp: getopt_loop_modes [OF assms(2)])
qed

lemma options_1K:
  "options = 0x02 \<or> options = 0x08 \<or> options = 0x0A \<Longrightarrow>
   (options OR 0x61) AND 0x05 = 0x01 \<and> region (options OR 0x61) = 96 \<and>
   key_count (options OR 0x61) = 16 \<and> (options OR 0x61) AND 0x0A = options"
  by (auto simp: region_def key_count_def KEYS_1K_def)

lemma options_4K:
  "options = 0x02 \<or> options = 0x08 \<or> options = 0x0A \<Longrightarrow>
   (options OR 0xF4) AND 0x05 = 0x04 \<and> region (options OR 0xF4) = 240 \<and>
   key_count (options OR 0xF4) = 40 \<and> (options OR 0xF4) AND 0x0A = options"
  by (auto simp: region_def key_count_def KEYS_4K_def)

lemma options_other:
  "options = 0x02 \<or> options = 0x08 \<or> options = 0x0A \<Longrightarrow> (options :: byte) AND 0x05 = 0"
  by auto


lemma loop_body_keeps: "uid (loop_body i s) = uid s" "header (loop_body i s) = header s"
  by (simp_all add: loop_body_def Let_def)

lemma key_loop_keeps: "uid (key_loop n i s) = uid s \<and> header (key_loop n i s) = header s"
proof (induction n i s rule: key_loop.induct)
  case (1 n i s)
  then show ?case
    by (cases "i < n") (simp_all add: key_loop.simps [of n i] loop_body_keeps)
qed

lemma store_whole: "length bs = length buf \<Longrightarrow> store buf 0 bs = bs"
  by (simp add: store_def)

lemma size_options_valid:
  assumes "options = 0x02 \<or> options = 0x08 \<or> options = 0x0A"
    and "len = 1024 \<or> len = 4096"
  shows "size_options len options AND 0x05 \<noteq> 0"
    and "region (size_options len options) = 6 * key_count (size_options len options)"
    and "key_count (size_options len options) = (if len = 1024 then 16 else 40)"
    and "size_options len options AND 0x0A = options"
    and "size_options len options AND 0x05 = (if len = 1024 then 0x01 else 0x04)"
  using assms options_1K [of options] options_4K [of options]
  by (auto simp: size_options_def FILE_SIZE_1K_def FILE_SIZE_4K_def)

lemma trailerCursor_fits:
  assumes "len = 1024 \<or> len = 4096" and "j < (if len = 1024 then 16 else 40)"
  shows "trailerCursor j + 16 \<le> (len :: nat)"
  using assms trailerCursor_1K [of j] trailerCursor_4K [of j] by (auto split: if_splits)

lemma read_keys_inv:
  assumes o: "options = 0x02 \<or> options = 0x08 \<or> options = 0x0A"
    and l: "length raw = 1024 \<or> length raw = 4096"
    and n: "n = key_count (size_options (length raw) options)"
  shows "loop_inv raw n [(0, 8)] n
           (read_keys e (size_options (length raw) options) \<lparr>contents = raw, fpos = p, freads = []\<rparr>)"
proof -
  let ?o1 = "size_options (length raw) options"
  let ?f = "\<lparr>contents = raw, fpos = p, freads = []\<rparr>"
  have reg: "region ?o1 = 6 * n" using size_options_valid(2) [OF o l] n by simp
  have nn: "n = (if length raw = 1024 then 16 else 40)" using size_options_valid(3) [OF o l] n by simp
  have ru: "fread UID_SIZE (fseek_set 0x00 ?f) =
      (take 8 raw, \<lparr>contents = raw, fpos = 8, freads = [(0, 8)]\<rparr>)"
    using l by (auto simp: fread_def fseek_set_def UID_SIZE_def Let_def)
  let ?s0 = "\<lparr>infile = fseek_set 0x30 \<lparr>contents = raw, fpos = 8, freads = [(0, 8)]\<rparr>,
      uid = store (malloc_block (garbage e 0) UID_SIZE) 0 (take 8 raw),
      a_keys = malloc_block (garbage e 1) (region ?o1),
      b_keys = malloc_block (garbage e 2) (region ?o1), aptr = 0, bptr = 0,
      offset = 0, header = (?o1 AND 0x05, bytes_to_num (store (malloc_block (garbage e 0) UID_SIZE) 0 (take 8 raw)) 4),
      rows = [], fault = False\<rparr>"
  have rk: "read_keys e ?o1 ?f = key_loop n 0 ?s0"
    unfolding read_keys_def Let_def ru fst_conv snd_conv n ..
  have inv0: "loop_inv raw n [(0, 8)] 0 ?s0"
    by (simp add: loop_inv_def fseek_set_def key_reads_def malloc_block_def reg firstTrailerOffset_def)
  have fits: "\<forall>j<n. trailerCursor j + 16 \<le> length raw"
    using trailerCursor_fits [OF l] nn by simp
  show ?thesis
    unfolding rk by (rule loop_inv_loop [OF inv0 _ fits]) simp
qed

lemma read_keys_uid:
  assumes l: "length raw = 1024 \<or> length raw = 4096"
  shows "uid (read_keys e options \<lparr>contents = raw, fpos = p, freads = []\<rparr>) = take 8 raw"
    and "header (read_keys e options \<lparr>contents = raw, fpos = p, freads = []\<rparr>)
         = (options AND 0x05, bytes_to_num (take 8 raw) 4)"
proof -
  have len: "length (take 8 raw) = length (malloc_block (garbage e 0) UID_SIZE)"
    using l by (auto simp: malloc_block_def UID_SIZE_def)
  have ru: "fst (fread UID_SIZE (fseek_set 0x00 \<lparr>contents = raw, fpos = p, freads = []\<rparr>)) = take 8 raw"
    by (simp add: fread_def fseek_set_def UID_SIZE_def Let_def)
  show "uid (read_keys e options \<lparr>contents = raw, fpos = p, freads = []\<rparr>) = take 8 raw"
    unfolding read_keys_def Let_def ru by (simp add: key_loop_keeps store_whole [OF len])
  show "header (read_keys e options \<lparr>contents = raw, fpos = p, freads = []\<rparr>)
         = (options AND 0x05, bytes_to_num (take 8 raw) 4)"
    unfolding read_keys_def Let_def ru by (simp add: key_loop_keeps store_whole [OF len])
qed


lemma main_modes:
  assumes "opts \<noteq> []" and "set opts \<subseteq> {CHR ''m'', CHR ''p''}"
  shows "\<exists>options. (options = 0x02 \<or> options = 0x08 \<or> options = 0x0A) \<and>
           getopt_loop opts 0 = Inr options \<and>
           main e opts (Some path) = main_body e options path"
proof -
  from getopt_loop_nonempty [OF assms] obtain options :: byte
    where g: "getopt_loop opts 0 = Inr options"
      and o: "options = 0x02 \<or> options = 0x08 \<or> options = 0x0A" by blast
  from o have nz: "options \<noteq> 0" by auto
  have "main e opts (Some path) = main_body e options path"
    unfolding main_def g using nz by simp
  with g o show ?thesis by blast
qed

lemma fclose_input: "fclose InputFile (world0\<lparr>opened := [InputFile]\<rparr>) = world0"
  by (simp add: fclose_def world0_def)

lemma main_body_valid:
  assumes o: "options = 0x02 \<or> options = 0x08 \<or> options = 0x0A"
    and f: "fopen_rb e path = Some raw"
    and l: "length raw = 1024 \<or> length raw = 4096"
    and m: "malloc_ok e 0" "malloc_ok e 1" "malloc_ok e 2"
    and o1: "o1 = size_options (length raw) options"
    and s: "s = read_keys e o1 \<lparr>contents = raw, fpos = length raw, freads = []\<rparr>"
  shows "main_body e options path =
           \<lparr>result = fst (emit e o1 s world0), table = Some (o1, s),
            reads = freads (infile s), io = snd (emit e o1 s world0)\<rparr>"
proof -
  have nz: "size_options (length raw) options AND 0x05 \<noteq> 0"
    by (rule size_options_valid(1) [OF o l])
  show ?thesis
    unfolding main_body_def f option.case Let_def fseek_end_def ftell_def
    using nz m by (simp add: o1 s fclose_input)
qed

lemma main_body_wrong_size:
  assumes o: "options = 0x02 \<or> options = 0x08 \<or> options = 0x0A"
    and f: "fopen_rb e path = Some raw"
    and l: "length raw \<noteq> 1024" "length raw \<noteq> 4096"
  shows "main_body e options path =
           \<lparr>result = Some WrongSize, table = None, reads = [], io = world0\<rparr>"
proof -
  have "size_options (length raw) options = options"
    using l by (simp add: size_options_def FILE_SIZE_1K_def FILE_SIZE_4K_def)
  then have z: "size_options (length raw) options AND 0x05 = 0"
    using options_other [OF o] by simp
  show ?thesis
    unfolding main_body_def f option.case Let_def fseek_end_def ftell_def
    using z by (simp add: fclose_input)
qed


lemma getopt_loop_range:
  assumes "getopt_loop opts acc = Inr options"
    and "acc = 0 \<or> acc = 0x02 \<or> acc = 0x08 \<or> acc = 0x0A"
  shows "options = 0 \<or> options = 0x02 \<or> options = 0x08 \<or> options = 0x0A"
  using assms
proof (induction opts arbitrary: acc)
  case Nil
  then show ?case by simp
next
  case (Cons ch opts)
  show ?case
  proof (cases "ch = CHR ''m''")
    case True
    with Cons.prems have "getopt_loop opts (acc OR 0x02) = Inr options"
      and "acc OR 0x02 = 0x02 \<or> acc OR 0x02 = 0x0A" by auto
    then show ?thesis using Cons.IH [of "acc OR 0x02"] by blast
  next
    case False
    note notm = False
    show ?thesis
    proof (cases "ch = CHR ''p''")
      case True
      with notm Cons.prems have "getopt_loop opts (acc OR 0x08) = Inr options"
        and "acc OR 0x08 = 0x08 \<or> acc OR 0x08 = 0x0A" by auto
      then show ?thesis using Cons.IH [of "acc OR 0x08"] by blast
    next
      case False
      with notm Cons.prems show ?thesis by (simp split: if_splits)
    qed
  qed
qed

section \<open>What a run on a valid dump leaves\<close>

lemma length_concat_keys:
  "\<forall>j<n. length (f j) = 6 \<Longrightarrow> length (concat (map f [0..<n])) = 6 * n"
  by (induction n) simp_all

lemma concat_keys_nth:
  assumes "\<forall>j<n. length (f j) = 6" and "i < n"
  shows "take 6 (drop (i * 6) (concat (map f [0..<n]))) = f i"
  using assms
proof (induction n)
  case 0
  then show ?case by simp
next
  case (Suc n)
  have len: "length (concat (map f [0..<n])) = 6 * n"
    using Suc.prems(1) by (simp add: length_concat_keys)
  show ?case
  proof (cases "i < n")
    case True
    then have "take 6 (drop (i * 6) (concat (map f [0..<n]))) = f i"
      using Suc by simp
    moreover have "i * 6 + 6 \<le> length (concat (map f [0..<n]))"
      using True len by simp
    ultimately show ?thesis by simp
  next
    case False
    with Suc.prems have "i = n" by simp
    then show ?thesis using len Suc.prems(1) by simp
  qed
qed

lemma key_reads_mem:
  "(p, k) \<in> set (key_reads n) \<Longrightarrow>
   \<exists>j<n. k = 6 \<and> (p = trailerCursor j \<or> p = trailerCursor j + 6 + 4)"
  by (auto simp: key_reads_def)

lemma key_reads_last:
  "0 < n \<Longrightarrow> last (key_reads n) = (trailerCursor (n - 1) + 6 + 4, 6)"
  by (cases n) (simp_all add: key_reads_Suc)

lemma emit_not_wrong_size: "fst (emit e options s w) \<noteq> Some WrongSize"
  by (auto simp: emit_def write_keys_def fwrite_def Let_def encode_linear_def split: prod.splits option.splits if_splits)

lemma decode_valid:
  assumes "opts \<noteq> []" and "set opts \<subseteq> {CHR ''m'', CHR ''p''}"
    and f: "fopen_rb e path = Some raw"
    and l: "length raw = 1024 \<or> length raw = 4096"
    and m: "malloc_ok e 0" "malloc_ok e 1" "malloc_ok e 2"
  obtains options o1 s where
    "options = 0x02 \<or> options = 0x08 \<or> options = 0x0A"
    "getopt_loop opts 0 = Inr options"
    "o1 = size_options (length raw) options"
    "s = read_keys e o1 \<lparr>contents = raw, fpos = length raw, freads = []\<rparr>"
    "main e opts (Some path) =
       \<lparr>result = fst (emit e o1 s world0), table = Some (o1, s),
        reads = freads (infile s), io = snd (emit e o1 s world0)\<rparr>"
    "loop_inv raw (key_count o1) [(0, 8)] (key_count o1) s"
    "key_count o1 = (if length raw = 1024 then 16 else 40)"
    "region o1 = 6 * key_count o1"
    "uid s = take 8 raw"
    "header s = (o1 AND 0x05, bytes_to_num (take 8 raw) 4)"
    "o1 AND 0x0A = options"
    "o1 AND 0x05 = (if length raw = 1024 then 0x01 else 0x04)"
proof -
  from main_modes [OF assms(1,2)] obtain options :: byte
    where o: "options = 0x02 \<or> options = 0x08 \<or> options = 0x0A"
      and g: "getopt_loop opts 0 = Inr options"
      and mb: "main e opts (Some path) = main_body e options path" by blast
  define o1 where "o1 = size_options (length raw) options"
  define s where "s = read_keys e o1 \<lparr>contents = raw, fpos = length raw, freads = []\<rparr>"
  have 1: "main e opts (Some path) =
       \<lparr>result = fst (emit e o1 s world0), table = Some (o1, s),
        reads = freads (infile s), io = snd (emit e o1 s world0)\<rparr>"
    unfolding mb by (rule main_body_valid [OF o f l m o1_def s_def])
  have 2: "loop_inv raw (key_count o1) [(0, 8)] (key_count o1) s"
    unfolding s_def o1_def by (rule read_keys_inv [OF o l refl])
  note v = size_options_valid [OF o l, folded o1_def]
  note u = read_keys_uid [OF l, of e o1 "length raw", folded s_def]
  show thesis
    by (rule that [OF o g o1_def s_def 1 2 v(3) v(2) u(1) u(2) v(4) v(5)])
qed


lemma sample_dump_length: "length sample_dump = 1024"
  by (simp add: sample_dump_def)

lemma env_of_simps:
  "fopen_rb (env_of raw) path = Some raw" "malloc_ok (env_of raw) k"
  "fopen_wb (env_of raw) name" "fwrite_ok (env_of raw) name"
  by (simp_all add: env_of_def)

lemma loop_inv_final:
  assumes "loop_inv raw n r0 n s"
  shows "a_keys s = concat (map (keyA raw) [0..<n])"
    and "b_keys s = concat (map (keyB raw) [0..<n])"
    and "freads (infile s) = r0 @ key_reads n"
    and "fpos (infile s) + unat (offset s) = trailerCursor n"
    and "rows s = map (\<lambda>j. (j, bytes_to_num (keyA raw j) 6, bytes_to_num (keyB raw j) 6)) [0..<n]"
    and "aptr s = 6 * n" and "bptr s = 6 * n"
    and "length (a_keys s) = 6 * n" and "length (b_keys s) = 6 * n"
    and "\<not> fault s"
proof -
  have ta: "take (6 * n) (a_keys s) = concat (map (keyA raw) [0..<n])"
    and la: "length (a_keys s) = 6 * n"
    and tb: "take (6 * n) (b_keys s) = concat (map (keyB raw) [0..<n])"
    and lb: "length (b_keys s) = 6 * n"
    using assms by (simp_all add: loop_inv_def)
  show "a_keys s = concat (map (keyA raw) [0..<n])" using ta la by simp
  show "b_keys s = concat (map (keyB raw) [0..<n])" using tb lb by simp
qed (use assms in \<open>simp_all add: loop_inv_def\<close>)

lemma key_at_concat:
  assumes "\<forall>j<n. length (f j) = 6" and "i < n"
  shows "key_at (concat (map f [0..<n])) i = f i"
  unfolding key_at_def KEY_SIZE_def by (rule concat_keys_nth [OF assms])

section \<open>The encoders and the output files\<close>

lemma concat_key_at: "concat (map (key_at buf) [0..<n]) = take (n * KEY_SIZE) buf"
proof (induction n)
  case 0
  then show ?case by simp
next
  case (Suc n)
  have "take (n * KEY_SIZE) buf @ take KEY_SIZE (drop (n * KEY_SIZE) buf)
      = take (n * KEY_SIZE + KEY_SIZE) buf"
    by (simp add: take_add)
  with Suc show ?case by (simp add: key_at_def add.commute)
qed

lemma concat_key_at_whole:
  "length buf = n * KEY_SIZE \<Longrightarrow> concat (map (key_at buf) [0..<n]) = buf"
  by (simp add: concat_key_at)

lemma encode_linear_well_formed:
  assumes "malloc_ok e 3" and "length a = region options" and "length b = region options"
  shows "encode_linear e options a b = Some (a @ b)"
  using assms
  by (simp add: encode_linear_def Let_def memmove_def store_def malloc_block_def)

lemma encode_gui_well_formed:
  assumes "length a = region options" and "length b = region options"
  shows "encode_gui options a b = (a, b)"
  using assms by (simp add: encode_gui_def)

lemma well_formed_region:
  assumes "well_formed options a b"
  shows "region options = (if options AND 0x05 = 0x01 then 96 else 240)"
    and "key_count options = (if options AND 0x05 = 0x01 then 16 else 40)"
    and "length a = key_count options * KEY_SIZE" and "length b = key_count options * KEY_SIZE"
    and "length a = region options" and "length b = region options"
  using assms
  by (simp_all add: well_formed_def key_count_def KEYS_1K_def KEYS_4K_def KEY_SIZE_def)


lemma bytes_to_num_loop_numeral:
  "bytes_to_num_loop (b # src) (numeral k) num =
     bytes_to_num_loop src (pred_numeral k) (push_bit 8 num OR ucast b)"
  by (simp add: numeral_eq_Suc)

lemma bytes_to_num_loop_one:
  "bytes_to_num_loop (b # src) 1 num = push_bit 8 num OR ucast b"
  by (simp only: One_nat_def bytes_to_num_loop.simps)

lemma uid_num: "bytes_to_num [0xDE, 0xAD, 0xBE, 0xEF] 4 = 0xDEADBEEF"
  by (simp add: bytes_to_num_def bytes_to_num_loop_numeral bytes_to_num_loop_one)

lemma keyA_num: "bytes_to_num [0xA1, 0xA2, 0xA3, 0xA4, 0xA5, 0xA6] 6 = 0xA1A2A3A4A5A6"
  by (simp add: bytes_to_num_def bytes_to_num_loop_numeral bytes_to_num_loop_one)

lemma keyB_num: "bytes_to_num [0xB1, 0xB2, 0xB3, 0xB4, 0xB5, 0xB6] 6 = 0xB1B2B3B4B5B6"
  by (simp add: bytes_to_num_def bytes_to_num_loop_numeral bytes_to_num_loop_one)

lemma hex08_uid: "hex08 0xDEADBEEF = ''deadbeef''"
  by (simp add: hex08_def hex_of.simps hex_digit_def)

lemma write_keys_size_0:
  "fopen_wb e filename \<Longrightarrow>
   write_keys e keys filename 0 w =
     (Some (CannotWrite filename),
      w\<lparr>opened := OutputFile filename # opened w, created := created w @ [filename]\<rparr>)"
  by (simp add: write_keys_def fwrite_def)

lemma emit_gui_ok:
  assumes "options AND 0x0A = 0x02"
    and "na = ''a'' @ hex08 (bytes_to_num (uid s) 4) @ ''.dump''"
    and "nb = ''b'' @ hex08 (bytes_to_num (uid s) 4) @ ''.dump''"
    and "fopen_wb e na" and "fwrite_ok e na" and "fopen_wb e nb" and "fwrite_ok e nb"
    and "length (a_keys s) = region options" and "length (b_keys s) = region options"
    and "0 < region options"
  shows "emit e options s world0 =
           (None, \<lparr>opened = [], created = [na, nb],
                   written = [(na, a_keys s), (nb, b_keys s)], overrun = False\<rparr>)"
  using assms
  by (simp add: emit_def Let_def write_keys_def fwrite_def world0_def fclose_def)

lemma emit_gui_write_fails:
  assumes "options AND 0x0A = 0x02"
    and "na = ''a'' @ hex08 (bytes_to_num (uid s) 4) @ ''.dump''"
    and "fopen_wb e na" and "\<not> fwrite_ok e na"
  shows "emit e options s world0 =
           (Some (CannotWrite na),
            \<lparr>opened = [OutputFile na], created = [na], written = [], overrun = False\<rparr>)"
  using assms
  by (simp add: emit_def Let_def write_keys_def fwrite_def world0_def)

lemma emit_linear_ok:
  assumes "options AND 0x0A \<noteq> 0x02"
    and "nm = hex08 (bytes_to_num (uid s) 4) @ ''.bin''"
    and "malloc_ok e 3" and "fopen_wb e nm" and "fwrite_ok e nm"
    and "length (a_keys s) = region options" and "length (b_keys s) = region options"
    and "0 < region options"
  shows "emit e options s world0 =
           (None, \<lparr>opened = [], created = [nm],
                   written = [(nm, a_keys s @ b_keys s)], overrun = False\<rparr>)"
  using assms
  by (simp add: emit_def Let_def write_keys_def fwrite_def world0_def fclose_def
      encode_linear_well_formed)


lemma sample_well_formed: "well_formed 0x69 sample_a sample_b"
  by (simp add: well_formed_def region_def key_count_def KEYS_1K_def KEY_SIZE_def
      sample_a_def sample_b_def)

lemma uid_number:
  assumes "take 4 raw = [0xDE, 0xAD, 0xBE, 0xEF]"
  shows "bytes_to_num (take 8 raw) 4 = 0xDEADBEEF"
proof -
  have e: "take 8 raw = [0xDE, 0xAD, 0xBE, 0xEF] @ take 4 (drop 4 raw)"
    using take_add [of 4 4 raw] assms by simp
  have "bytes_to_num ([0xDE, 0xAD, 0xBE, 0xEF] @ take 4 (drop 4 raw)) 4
      = bytes_to_num [0xDE, 0xAD, 0xBE, 0xEF] 4"
    by (rule bytes_to_num_append) simp
  then show ?thesis unfolding e uid_num .
qed

lemma sample_dump_uid: "take 4 sample_dump = [0xDE, 0xAD, 0xBE, 0xEF]"
  by (simp add: sample_dump_def)

lemma sample_dump_trailer:
  "take 16 (drop 0x30 sample_dump) =
     [0xA1, 0xA2, 0xA3, 0xA4, 0xA5, 0xA6, 0xFF, 0xFF, 0x07, 0x80,
      0xB1, 0xB2, 0xB3, 0xB4, 0xB5, 0xB6]"
  by (simp add: sample_dump_def)

section \<open>Whole runs on a valid dump\<close>

lemma main_table_well_formed:
  assumes "opts \<noteq> []" and "set opts \<subseteq> {CHR ''m'', CHR ''p''}"
    and "fopen_rb e path = Some raw"
    and "length raw = 1024 \<or> length raw = 4096"
    and "malloc_ok e 0" and "malloc_ok e 1" and "malloc_ok e 2"
  shows "\<exists>options s. table (main e opts (Some path)) = Some (options, s) \<and>
           well_formed options (a_keys s) (b_keys s)"
proof -
  from assms obtain options o1 s where
    mn: "main e opts (Some path) =
       \<lparr>result = fst (emit e o1 s world0), table = Some (o1, s),
        reads = freads (infile s), io = snd (emit e o1 s world0)\<rparr>"
    and inv: "loop_inv raw (key_count o1) [(0, 8)] (key_count o1) s"
    and reg: "region o1 = 6 * key_count o1"
    and ty: "o1 AND 0x05 = (if length raw = 1024 then 0x01 else 0x04)"
    by (rule decode_valid)
  note fin = loop_inv_final [OF inv]
  have "well_formed o1 (a_keys s) (b_keys s)"
    using ty reg fin(8,9) by (simp add: well_formed_def KEY_SIZE_def)
  then show ?thesis by (simp add: mn)
qed

lemma getopt_loop_p:
  assumes "CHR ''p'' \<in> set opts" and "set opts \<subseteq> {CHR ''m'', CHR ''p''}"
  shows "getopt_loop opts 0 = Inr 0x08 \<or> getopt_loop opts 0 = Inr 0x0A"
proof (cases "CHR ''m'' \<in> set opts")
  case True
  then show ?thesis unfolding getopt_loop_modes [OF assms(2)] using assms(1) by simp
next
  case False
  then show ?thesis unfolding getopt_loop_modes [OF assms(2)] using assms(1) by simp
qed

lemma getopt_loop_m_only:
  assumes "opts \<noteq> []" and "set opts \<subseteq> {CHR ''m''}"
  shows "getopt_loop opts 0 = Inr 0x02"
proof -
  have sub: "set opts \<subseteq> {CHR ''m'', CHR ''p''}" using assms(2) by blast
  from assms(1) obtain ch where "ch \<in> set opts" by (cases opts) auto
  with assms(2) have m: "CHR ''m'' \<in> set opts" by blast
  have "CHR ''p'' \<noteq> CHR ''m''" by simp
  with assms(2) have p: "CHR ''p'' \<notin> set opts" by blast
  show ?thesis unfolding getopt_loop_modes [OF sub] using m p by simp
qed

lemma main_proxmark_file:
  assumes "CHR ''p'' \<in> set opts" and "set opts \<subseteq> {CHR ''m'', CHR ''p''}"
    and "fopen_rb e path = Some raw"
    and "length raw = 1024 \<or> length raw = 4096"
    and "malloc_ok e 0" and "malloc_ok e 1" and "malloc_ok e 2" and "malloc_ok e 3"
    and "nm = hex08 (bytes_to_num (take 8 raw) 4) @ ''.bin''"
    and "fopen_wb e nm" and "fwrite_ok e nm"
    and "n = (if length raw = 1024 then 16 else 40)"
  shows "result (main e opts (Some path)) = None"
    and "written (io (main e opts (Some path))) =
           [(nm, concat (map (keyA raw) [0..<n]) @ concat (map (keyB raw) [0..<n]))]"
    and "length (concat (map (keyA raw) [0..<n]) @ concat (map (keyB raw) [0..<n]))
           = (if length raw = 1024 then 192 else 480)"
    and "opened (io (main e opts (Some path))) = []"
proof -
  have ne: "opts \<noteq> []" using assms(1) by auto
  from ne assms(2-7) obtain options o1 s where
    g: "getopt_loop opts 0 = Inr options"
    and mn: "main e opts (Some path) =
       \<lparr>result = fst (emit e o1 s world0), table = Some (o1, s),
        reads = freads (infile s), io = snd (emit e o1 s world0)\<rparr>"
    and inv: "loop_inv raw (key_count o1) [(0, 8)] (key_count o1) s"
    and kc: "key_count o1 = (if length raw = 1024 then 16 else 40)"
    and reg: "region o1 = 6 * key_count o1"
    and us: "uid s = take 8 raw"
    and md: "o1 AND 0x0A = options"
    by (rule decode_valid)
  note fin = loop_inv_final [OF inv]
  have "options = 0x08 \<or> options = 0x0A"
    using g getopt_loop_p [OF assms(1,2)] by auto
  with md have lin: "o1 AND 0x0A \<noteq> 0x02" by auto
  have nm: "nm = hex08 (bytes_to_num (uid s) 4) @ ''.bin''" by (simp add: assms(9) us)
  have la: "length (a_keys s) = region o1" and lb: "length (b_keys s) = region o1"
    by (simp_all add: fin(8,9) reg)
  have pos: "0 < region o1" using reg kc by simp
  note em = emit_linear_ok [OF lin nm assms(8) assms(10) assms(11) la lb pos]
  have n: "n = key_count o1" by (simp add: assms(12) kc)
  show "result (main e opts (Some path)) = None" by (simp add: mn em)
  show "written (io (main e opts (Some path))) =
           [(nm, concat (map (keyA raw) [0..<n]) @ concat (map (keyB raw) [0..<n]))]"
    unfolding n fin(1) [symmetric] fin(2) [symmetric] by (simp add: mn em)
  show "length (concat (map (keyA raw) [0..<n]) @ concat (map (keyB raw) [0..<n]))
           = (if length raw = 1024 then 192 else 480)"
    unfolding n fin(1) [symmetric] fin(2) [symmetric] using fin(8,9) kc by simp
  show "opened (io (main e opts (Some path))) = []" by (simp add: mn em)
qed

lemma main_gui_files:
  assumes "opts \<noteq> []" and "set opts \<subseteq> {CHR ''m''}"
    and "fopen_rb e path = Some raw"
    and "length raw = 1024 \<or> length raw = 4096"
    and "malloc_ok e 0" and "malloc_ok e 1" and "malloc_ok e 2"
    and "na = ''a'' @ hex08 (bytes_to_num (take 8 raw) 4) @ ''.dump''"
    and "nb = ''b'' @ hex08 (bytes_to_num (take 8 raw) 4) @ ''.dump''"
    and "fopen_wb e na" and "fwrite_ok e na" and "fopen_wb e nb" and "fwrite_ok e nb"
    and "n = (if length raw = 1024 then 16 else 40)"
  shows "result (main e opts (Some path)) = None"
    and "written (io (main e opts (Some path))) =
           [(na, concat (map (keyA raw) [0..<n])), (nb, concat (map (keyB raw) [0..<n]))]"
    and "length (concat (map (keyA raw) [0..<n])) = (if length raw = 1024 then 96 else 240)"
    and "length (concat (map (keyB raw) [0..<n])) = (if length raw = 1024 then 96 else 240)"
    and "opened (io (main e opts (Some path))) = []"
proof -
  have sub: "set opts \<subseteq> {CHR ''m'', CHR ''p''}" using assms(2) by blast
  from assms(1) sub assms(3-7) obtain options o1 s where
    g: "getopt_loop opts 0 = Inr options"
    and mn: "main e opts (Some path) =
       \<lparr>result = fst (emit e o1 s world0), table = Some (o1, s),
        reads = freads (infile s), io = snd (emit e o1 s world0)\<rparr>"
    and inv: "loop_inv raw (key_count o1) [(0, 8)] (key_count o1) s"
    and kc: "key_count o1 = (if length raw = 1024 then 16 else 40)"
    and reg: "region o1 = 6 * key_count o1"
    and us: "uid s = take 8 raw"
    and md: "o1 AND 0x0A = options"
    by (rule decode_valid)
  note fin = loop_inv_final [OF inv]
  have "options = 0x02"
    using g getopt_loop_m_only [OF assms(1,2)] by simp
  with md have gui: "o1 AND 0x0A = 0x02" by simp
  have na: "na = ''a'' @ hex08 (bytes_to_num (uid s) 4) @ ''.dump''"
    and nb: "nb = ''b'' @ hex08 (bytes_to_num (uid s) 4) @ ''.dump''"
    by (simp_all add: assms(8,9) us)
  have la: "length (a_keys s) = region o1" and lb: "length (b_keys s) = region o1"
    by (simp_all add: fin(8,9) reg)
  have pos: "0 < region o1" using reg kc by simp
  note em = emit_gui_ok [OF gui na nb assms(10-13) la lb pos]
  have n: "n = key_count o1" by (simp add: assms(14) kc)
  show "result (main e opts (Some path)) = None" by (simp add: mn em)
  show "written (io (main e opts (Some path))) =
           [(na, concat (map (keyA raw) [0..<n])), (nb, concat (map (keyB raw) [0..<n]))]"
    unfolding n fin(1) [symmetric] fin(2) [symmetric] by (simp add: mn em)
  show "length (concat (map (keyA raw) [0..<n])) = (if length raw = 1024 then 96 else 240)"
    unfolding n fin(1) [symmetric] using fin(8) kc by simp
  show "length (concat (map (keyB raw) [0..<n])) = (if length raw = 1024 then 96 else 240)"
    unfolding n fin(2) [symmetric] using fin(9) kc by simp
  show "opened (io (main e opts (Some path))) = []" by (simp add: mn em)
qed

text \<open>
  The allocation error of the Proxmark path (lines 225-228): when block 3 cannot be
  allocated the run ends with "Can not allocate enough memory!", after the key block.
\<close>

lemma proxmark_block_not_allocated:
  "well_formed 0x69 sample_a sample_b
   \<and> encode_linear env_no_memory 0x69 sample_a sample_b = None
   \<and> result (main env_no_memory ''p'' (Some ''card.mfd'')) = Some NoMemory"
proof -
  have e: "encode_linear env_no_memory options a b = None" for options a b
    by (simp add: encode_linear_def env_no_memory_def env_of_def)
  have h1: "''p'' \<noteq> []" and h2: "set ''p'' \<subseteq> {CHR ''m'', CHR ''p''}" by simp_all
  have h3: "fopen_rb env_no_memory ''card.mfd'' = Some sample_dump"
    by (simp add: env_no_memory_def env_of_def)
  have h4: "length sample_dump = 1024 \<or> length sample_dump = 4096"
    by (simp add: sample_dump_length)
  have m: "malloc_ok env_no_memory 0" "malloc_ok env_no_memory 1" "malloc_ok env_no_memory 2"
    by (simp_all add: env_no_memory_def env_of_def)
  from h1 h2 h3 h4 m obtain options o1 s where
    g: "getopt_loop ''p'' 0 = Inr options"
    and mn: "main env_no_memory ''p'' (Some ''card.mfd'') =
       \<lparr>result = fst (emit env_no_memory o1 s world0), table = Some (o1, s),
        reads = freads (infile s), io = snd (emit env_no_memory o1 s world0)\<rparr>"
    and md: "o1 AND 0x0A = options" by (rule decode_valid)
  from g have "options = 0x08" by simp
  with md have "o1 AND 0x0A \<noteq> 0x02" by simp
  then have "fst (emit env_no_memory o1 s world0) = Some NoMemory"
    by (simp add: emit_def Let_def e)
  then show ?thesis using sample_well_formed e by (simp add: mn)
qed

section \<open>The claims\<close>

text \<open>
  C1. On every valid dump (1024 or 4096 bytes) the key loop reads, after the 8 bytes of
  the UID at offset 0, exactly the reads of the walk of the specification: for each index
  \<open>i\<close> below the key count, 6 bytes at \<open>trailerCursor i\<close> (the A key) and 6 bytes 4 bytes
  further (the B key); both key buffers hold these bytes in order. The cursor of index 0 is
  0x30 and each index moves it by 6 + 4 + 6 bytes and the stride, 0x30 when \<open>i < 31\<close> and
  0xF0 otherwise, whatever the card type. The source holds the stride in \<open>offset\<close> and
  applies it with the \<open>fseek\<close> that opens the next iteration: after the loop, position plus
  \<open>offset\<close> is the cursor of the specification.
\<close>

theorem C1_trailer_walk:
  assumes "opts \<noteq> []" and "set opts \<subseteq> {CHR ''m'', CHR ''p''}"
    and "fopen_rb e path = Some raw"
    and "length raw = 1024 \<or> length raw = 4096"
    and "malloc_ok e 0" and "malloc_ok e 1" and "malloc_ok e 2"
  shows "\<exists>options s.
           table (main e opts (Some path)) = Some (options, s) \<and>
           key_count options = (if length raw = 1024 then 16 else 40) \<and>
           reads (main e opts (Some path)) = (0, UID_SIZE) # key_reads (key_count options) \<and>
           a_keys s = concat (map (keyA raw) [0..<key_count options]) \<and>
           b_keys s = concat (map (keyB raw) [0..<key_count options]) \<and>
           fpos (infile s) + unat (offset s) = trailerCursor (key_count options) \<and>
           trailerCursor 0 = 0x30 \<and>
           (\<forall>i. trailerCursor (Suc i) = trailerCursor i + 6 + 4 + 6 + (if i < 31 then 0x30 else 0xF0))"
proof -
  from assms obtain options o1 s where
    mn: "main e opts (Some path) =
       \<lparr>result = fst (emit e o1 s world0), table = Some (o1, s),
        reads = freads (infile s), io = snd (emit e o1 s world0)\<rparr>"
    and inv: "loop_inv raw (key_count o1) [(0, 8)] (key_count o1) s"
    and kc: "key_count o1 = (if length raw = 1024 then 16 else 40)"
    by (rule decode_valid)
  note fin = loop_inv_final [OF inv]
  have t: "table (main e opts (Some path)) = Some (o1, s)" by (simp add: mn)
  have r: "reads (main e opts (Some path)) = (0, UID_SIZE) # key_reads (key_count o1)"
    by (simp add: mn fin(3) UID_SIZE_def)
  have c: "trailerCursor 0 = 0x30
      \<and> (\<forall>i. trailerCursor (Suc i) = trailerCursor i + 6 + 4 + 6 + (if i < 31 then 0x30 else 0xF0))"
    by (simp add: firstTrailerOffset_def blockStride_def)
  show ?thesis
    using t kc r fin(1) fin(2) fin(4) c by blast
qed

theorem C1_trailer_walk_witness:
  "\<exists>options s.
     table (main (env_of sample_dump) ''m'' (Some ''card.mfd'')) = Some (options, s) \<and>
     key_count options = 16 \<and>
     reads (main (env_of sample_dump) ''m'' (Some ''card.mfd''))
       = (0, UID_SIZE) # key_reads (key_count options) \<and>
     a_keys s = concat (map (keyA sample_dump) [0..<key_count options]) \<and>
     b_keys s = concat (map (keyB sample_dump) [0..<key_count options]) \<and>
     fpos (infile s) + unat (offset s) = trailerCursor (key_count options)"
proof -
  have h1: "''m'' \<noteq> []" and h2: "set ''m'' \<subseteq> {CHR ''m'', CHR ''p''}" by simp_all
  have h4: "length sample_dump = 1024 \<or> length sample_dump = 4096"
    by (simp add: sample_dump_length)
  from C1_trailer_walk [OF h1 h2 env_of_simps(1) h4 env_of_simps(2) env_of_simps(2) env_of_simps(2),
      of "''card.mfd''"]
  show ?thesis by (simp add: sample_dump_length) blast
qed

text \<open>
  C2. On an input of exactly 1024 bytes the key block runs to its end with 16 rows, on
  one of exactly 4096 bytes with 40 rows, numbered from 0; the run does not end with the
  size error. Both key buffers hold KEY_SIZE bytes per row, and the key of each sector is
  exactly 6 bytes: those read from its trailer, as printed in its row. (The three buffers
  of the key block must have been allocated.)
\<close>

theorem C2_table_size:
  assumes "opts \<noteq> []" and "set opts \<subseteq> {CHR ''m'', CHR ''p''}"
    and "fopen_rb e path = Some raw"
    and "length raw = 1024 \<or> length raw = 4096"
    and "malloc_ok e 0" and "malloc_ok e 1" and "malloc_ok e 2"
  shows "\<exists>options s.
           table (main e opts (Some path)) = Some (options, s) \<and>
           result (main e opts (Some path)) \<noteq> Some WrongSize \<and>
           key_count options = (if length raw = 1024 then 16 else 40) \<and>
           length (rows s) = key_count options \<and>
           map fst (rows s) = [0..<key_count options] \<and>
           length (a_keys s) = key_count options * KEY_SIZE \<and>
           length (b_keys s) = key_count options * KEY_SIZE \<and>
           (\<forall>i<key_count options.
              length (key_at (a_keys s) i) = 6 \<and> length (key_at (b_keys s) i) = 6 \<and>
              key_at (a_keys s) i = keyA raw i \<and> key_at (b_keys s) i = keyB raw i \<and>
              rows s ! i = (i, bytes_to_num (key_at (a_keys s) i) KEY_SIZE,
                               bytes_to_num (key_at (b_keys s) i) KEY_SIZE))"
proof -
  from assms obtain options o1 s where
    mn: "main e opts (Some path) =
       \<lparr>result = fst (emit e o1 s world0), table = Some (o1, s),
        reads = freads (infile s), io = snd (emit e o1 s world0)\<rparr>"
    and inv: "loop_inv raw (key_count o1) [(0, 8)] (key_count o1) s"
    and kc: "key_count o1 = (if length raw = 1024 then 16 else 40)"
    by (rule decode_valid)
  let ?n = "key_count o1"
  note fin = loop_inv_final [OF inv]
  have fits: "trailerCursor j + 16 \<le> length raw" if "j < ?n" for j
    using trailerCursor_fits [OF assms(4), of j] that kc by simp
  have la: "\<forall>j<?n. length (keyA raw j) = 6" using fits by (simp add: keyA_length)
  have lb: "\<forall>j<?n. length (keyB raw j) = 6" using fits by (simp add: keyB_length)
  have t: "table (main e opts (Some path)) = Some (o1, s)" by (simp add: mn)
  have r: "result (main e opts (Some path)) \<noteq> Some WrongSize"
    by (simp add: mn emit_not_wrong_size)
  have rl: "length (rows s) = ?n" by (simp add: fin(5))
  have ri: "map fst (rows s) = [0..<?n]" by (simp add: fin(5) comp_def)
  have al: "length (a_keys s) = ?n * KEY_SIZE" and bl: "length (b_keys s) = ?n * KEY_SIZE"
    by (simp_all add: fin(8,9) KEY_SIZE_def)
  have keys: "length (key_at (a_keys s) i) = 6 \<and> length (key_at (b_keys s) i) = 6 \<and>
      key_at (a_keys s) i = keyA raw i \<and> key_at (b_keys s) i = keyB raw i \<and>
      rows s ! i = (i, bytes_to_num (key_at (a_keys s) i) KEY_SIZE,
                       bytes_to_num (key_at (b_keys s) i) KEY_SIZE)" if i: "i < ?n" for i
  proof -
    have a: "key_at (a_keys s) i = keyA raw i"
      unfolding fin(1) by (rule key_at_concat [OF la i])
    have b: "key_at (b_keys s) i = keyB raw i"
      unfolding fin(2) by (rule key_at_concat [OF lb i])
    have "rows s ! i = (i, bytes_to_num (keyA raw i) 6, bytes_to_num (keyB raw i) 6)"
      using i by (simp add: fin(5))
    then show ?thesis using a b la lb i by (simp add: KEY_SIZE_def)
  qed
  show ?thesis
    using t r kc rl ri al bl keys by blast
qed

theorem C2_table_size_witness:
  "\<exists>options s.
     table (main (env_of sample_dump) ''m'' (Some ''card.mfd'')) = Some (options, s) \<and>
     result (main (env_of sample_dump) ''m'' (Some ''card.mfd'')) \<noteq> Some WrongSize \<and>
     key_count options = 16 \<and> length (rows s) = key_count options \<and>
     length (a_keys s) = key_count options * KEY_SIZE \<and>
     length (b_keys s) = key_count options * KEY_SIZE"
proof -
  have h1: "''m'' \<noteq> []" and h2: "set ''m'' \<subseteq> {CHR ''m'', CHR ''p''}" by simp_all
  have h4: "length sample_dump = 1024 \<or> length sample_dump = 4096"
    by (simp add: sample_dump_length)
  from C2_table_size [OF h1 h2 env_of_simps(1) h4 env_of_simps(2) env_of_simps(2) env_of_simps(2),
      of "''card.mfd''"]
  show ?thesis by (simp add: sample_dump_length) blast
qed

text \<open>
  C3. An input file whose length is neither 1024 nor 4096 bytes: the run ends with the
  message "not the correct size" and \<open>return 1\<close>, no key table, no \<open>fread\<close> on the input,
  no output file created or written, and the input handle closed. Whatever the options
  are, such a file is never read and no output file is created.
\<close>

theorem C3_wrong_size:
  assumes "opts \<noteq> []" and "set opts \<subseteq> {CHR ''m'', CHR ''p''}"
    and "fopen_rb e path = Some raw"
    and "length raw \<noteq> 1024" and "length raw \<noteq> 4096"
  shows "main e opts (Some path) =
           \<lparr>result = Some WrongSize, table = None, reads = [], io = world0\<rparr>
         \<and> created world0 = [] \<and> written world0 = [] \<and> opened world0 = []
         \<and> (\<forall>opts'. table (main e opts' (Some path)) = None
                    \<and> reads (main e opts' (Some path)) = []
                    \<and> created (io (main e opts' (Some path))) = []
                    \<and> written (io (main e opts' (Some path))) = [])"
proof -
  from main_modes [OF assms(1,2)] obtain options
    where o: "options = 0x02 \<or> options = 0x08 \<or> options = 0x0A"
      and mb: "main e opts (Some path) = main_body e options path" by blast
  have first: "main e opts (Some path) =
      \<lparr>result = Some WrongSize, table = None, reads = [], io = world0\<rparr>"
    unfolding mb by (rule main_body_wrong_size [OF o assms(3,4,5)])
  have any: "table (main e opts' (Some path)) = None
           \<and> reads (main e opts' (Some path)) = []
           \<and> created (io (main e opts' (Some path))) = []
           \<and> written (io (main e opts' (Some path))) = []" for opts'
  proof (cases "getopt_loop opts' 0")
    case (Inl err)
    then show ?thesis by (simp add: main_def stop_def world0_def)
  next
    case (Inr options')
    show ?thesis
    proof (cases "options' = 0")
      case True
      with Inr show ?thesis by (simp add: main_def stop_def world0_def)
    next
      case False
      with getopt_loop_range [OF Inr] have "options' = 0x02 \<or> options' = 0x08 \<or> options' = 0x0A"
        by simp
      from main_body_wrong_size [OF this assms(3,4,5)] Inr False
      show ?thesis by (simp add: main_def world0_def)
    qed
  qed
  show ?thesis using first any by (simp add: world0_def)
qed

theorem C3_wrong_size_witness:
  "main (env_of (replicate 500 0)) ''m'' (Some ''card.mfd'') =
     \<lparr>result = Some WrongSize, table = None, reads = [], io = world0\<rparr>"
proof -
  have "fopen_rb (env_of (replicate 500 0)) ''card.mfd'' = Some (replicate 500 0)"
    by (simp add: env_of_def)
  from C3_wrong_size [of "''m''", OF _ _ this] show ?thesis by simp
qed

text \<open>
  C4. For every well-formed key table the Proxmark encoding (when its block is allocated)
  is one buffer: all A keys in sector order, then all B keys in sector order. Its length
  is twice the region size: 192 bytes for a 1K table, 480 bytes for a 4K table.
\<close>

theorem C4_encode_linear:
  assumes "well_formed options a b" and "malloc_ok e 3"
  shows "encode_linear e options a b =
           Some (concat (map (key_at a) [0..<key_count options]) @
                 concat (map (key_at b) [0..<key_count options]))
         \<and> length (concat (map (key_at a) [0..<key_count options]) @
                   concat (map (key_at b) [0..<key_count options])) = 2 * region options
         \<and> 2 * region options = (if options AND 0x05 = 0x01 then 192 else 480)"
proof -
  note wf = well_formed_region [OF assms(1)]
  have a: "concat (map (key_at a) [0..<key_count options]) = a"
    by (rule concat_key_at_whole [OF wf(3)])
  have b: "concat (map (key_at b) [0..<key_count options]) = b"
    by (rule concat_key_at_whole [OF wf(4)])
  have "encode_linear e options a b = Some (a @ b)"
    by (rule encode_linear_well_formed [OF assms(2) wf(5) wf(6)])
  then show ?thesis
    unfolding a b using wf(1) wf(5) wf(6) by simp
qed

theorem C4_encode_linear_witness:
  "encode_linear (env_of []) 0x69 sample_a sample_b =
     Some (concat (map (key_at sample_a) [0..<key_count 0x69]) @
           concat (map (key_at sample_b) [0..<key_count 0x69]))
   \<and> 2 * region 0x69 = 192"
  using C4_encode_linear [OF sample_well_formed env_of_simps(2), of "[]"] by simp

text \<open>
  C5. For every well-formed key table the two mfocGUI buffers, the A buffer followed by
  the B buffer, are the A keys of all sectors in order followed by the B keys of all
  sectors in order; this is the buffer of the Proxmark encoding of the same table.
\<close>

theorem C5_gui_concat:
  assumes "well_formed options a b" and "malloc_ok e 3"
  shows "fst (encode_gui options a b) @ snd (encode_gui options a b) =
           concat (map (key_at a) [0..<key_count options]) @
           concat (map (key_at b) [0..<key_count options])
         \<and> encode_linear e options a b =
             Some (fst (encode_gui options a b) @ snd (encode_gui options a b))"
proof -
  note wf = well_formed_region [OF assms(1)]
  have a: "concat (map (key_at a) [0..<key_count options]) = a"
    by (rule concat_key_at_whole [OF wf(3)])
  have b: "concat (map (key_at b) [0..<key_count options]) = b"
    by (rule concat_key_at_whole [OF wf(4)])
  have g: "encode_gui options a b = (a, b)"
    by (rule encode_gui_well_formed [OF wf(5) wf(6)])
  have l: "encode_linear e options a b = Some (a @ b)"
    by (rule encode_linear_well_formed [OF assms(2) wf(5) wf(6)])
  show ?thesis unfolding a b g l by simp
qed

theorem C5_gui_concat_witness:
  "fst (encode_gui 0x69 sample_a sample_b) @ snd (encode_gui 0x69 sample_a sample_b) =
     concat (map (key_at sample_a) [0..<key_count 0x69]) @
     concat (map (key_at sample_b) [0..<key_count 0x69])
   \<and> encode_linear (env_of []) 0x69 sample_a sample_b =
       Some (fst (encode_gui 0x69 sample_a sample_b) @ snd (encode_gui 0x69 sample_a sample_b))"
  using C5_gui_concat [OF sample_well_formed env_of_simps(2), of "[]"] by simp

text \<open>
  C6. A 1024-byte dump that starts with DE AD BE EF and holds
  A1A2A3A4A5A6 FFFF0780 B1B2B3B4B5B6 at offset 0x30, run with option m: the header shows
  type 1 and UID deadbeef, row 0 shows the keys a1a2a3a4a5a6 and b1b2b3b4b5b6, which are
  the first 6 bytes of the two key buffers, and the files created and written are
  adeadbeef.dump and bdeadbeef.dump, holding the two buffers.
\<close>

theorem C6_scenario:
  assumes f: "fopen_rb e path = Some raw" and l: "length raw = 1024"
    and u: "take 4 raw = [0xDE, 0xAD, 0xBE, 0xEF]"
    and t: "take 16 (drop 0x30 raw) =
              [0xA1, 0xA2, 0xA3, 0xA4, 0xA5, 0xA6, 0xFF, 0xFF, 0x07, 0x80,
               0xB1, 0xB2, 0xB3, 0xB4, 0xB5, 0xB6]"
    and m: "malloc_ok e 0" "malloc_ok e 1" "malloc_ok e 2"
    and wa: "fopen_wb e ''adeadbeef.dump''" "fwrite_ok e ''adeadbeef.dump''"
    and wb: "fopen_wb e ''bdeadbeef.dump''" "fwrite_ok e ''bdeadbeef.dump''"
  shows "\<exists>options s.
           table (main e ''m'' (Some path)) = Some (options, s) \<and>
           header s = (0x01, 0xDEADBEEF) \<and>
           rows s ! 0 = (0, 0xA1A2A3A4A5A6, 0xB1B2B3B4B5B6) \<and>
           key_at (a_keys s) 0 = [0xA1, 0xA2, 0xA3, 0xA4, 0xA5, 0xA6] \<and>
           key_at (b_keys s) 0 = [0xB1, 0xB2, 0xB3, 0xB4, 0xB5, 0xB6] \<and>
           result (main e ''m'' (Some path)) = None \<and>
           created (io (main e ''m'' (Some path))) = [''adeadbeef.dump'', ''bdeadbeef.dump''] \<and>
           written (io (main e ''m'' (Some path))) =
             [(''adeadbeef.dump'', a_keys s), (''bdeadbeef.dump'', b_keys s)]"
proof -
  have h1: "''m'' \<noteq> []" and h2: "set ''m'' \<subseteq> {CHR ''m'', CHR ''p''}" by simp_all
  have h4: "length raw = 1024 \<or> length raw = 4096" using l by simp
  from h1 h2 f h4 m obtain options o1 s where
    g: "getopt_loop ''m'' 0 = Inr options"
    and mn: "main e ''m'' (Some path) =
       \<lparr>result = fst (emit e o1 s world0), table = Some (o1, s),
        reads = freads (infile s), io = snd (emit e o1 s world0)\<rparr>"
    and inv: "loop_inv raw (key_count o1) [(0, 8)] (key_count o1) s"
    and kc: "key_count o1 = (if length raw = 1024 then 16 else 40)"
    and reg: "region o1 = 6 * key_count o1"
    and us: "uid s = take 8 raw"
    and hd: "header s = (o1 AND 0x05, bytes_to_num (take 8 raw) 4)"
    and md: "o1 AND 0x0A = options"
    and ty: "o1 AND 0x05 = (if length raw = 1024 then 0x01 else 0x04)"
    by (rule decode_valid)
  note fin = loop_inv_final [OF inv]
  have n: "key_count o1 = 16" using kc l by simp
  from g have "options = 0x02" by simp
  with md have gui: "o1 AND 0x0A = 0x02" by simp
  have num: "bytes_to_num (uid s) 4 = 0xDEADBEEF" unfolding us by (rule uid_number [OF u])
  have na: "''adeadbeef.dump'' = ''a'' @ hex08 (bytes_to_num (uid s) 4) @ ''.dump''"
    and nb: "''bdeadbeef.dump'' = ''b'' @ hex08 (bytes_to_num (uid s) 4) @ ''.dump''"
    by (simp_all add: num hex08_uid)
  have la: "length (a_keys s) = region o1" and lb: "length (b_keys s) = region o1"
    by (simp_all add: fin(8,9) reg)
  have pos: "0 < region o1" using reg kc by simp
  note em = emit_gui_ok [OF gui na nb wa wb la lb pos]
  have ka: "keyA raw 0 = [0xA1, 0xA2, 0xA3, 0xA4, 0xA5, 0xA6]"
  proof -
    have "keyA raw 0 = take 6 (take 16 (drop 0x30 raw))"
      by (simp add: keyA_def firstTrailerOffset_def)
    then show ?thesis by (simp add: t)
  qed
  have kb: "keyB raw 0 = [0xB1, 0xB2, 0xB3, 0xB4, 0xB5, 0xB6]"
  proof -
    have "keyB raw 0 = take 6 (drop 10 (take 16 (drop 0x30 raw)))"
      by (simp add: keyB_def firstTrailerOffset_def drop_take add.commute)
    then show ?thesis by (simp add: t)
  qed
  have fits: "trailerCursor j + 16 \<le> length raw" if "j < 16" for j
    using trailerCursor_1K [OF that] l by simp
  have lka: "\<forall>j<key_count o1. length (keyA raw j) = 6" using fits n by (simp add: keyA_length)
  have lkb: "\<forall>j<key_count o1. length (keyB raw j) = 6" using fits n by (simp add: keyB_length)
  have i0: "0 < key_count o1" using n by simp
  have a0: "key_at (a_keys s) 0 = [0xA1, 0xA2, 0xA3, 0xA4, 0xA5, 0xA6]"
    unfolding fin(1) key_at_concat [OF lka i0] by (rule ka)
  have b0: "key_at (b_keys s) 0 = [0xB1, 0xB2, 0xB3, 0xB4, 0xB5, 0xB6]"
    unfolding fin(2) key_at_concat [OF lkb i0] by (rule kb)
  have r0: "rows s ! 0 = (0, 0xA1A2A3A4A5A6, 0xB1B2B3B4B5B6)"
    using i0 by (simp add: fin(5) ka kb keyA_num keyB_num)
  have h: "header s = (0x01, 0xDEADBEEF)"
    using hd ty l uid_number [OF u] by simp
  have tb: "table (main e ''m'' (Some path)) = Some (o1, s)" by (simp add: mn)
  have res: "result (main e ''m'' (Some path)) = None"
    and cr: "created (io (main e ''m'' (Some path))) = [''adeadbeef.dump'', ''bdeadbeef.dump'']"
    and wr: "written (io (main e ''m'' (Some path))) =
             [(''adeadbeef.dump'', a_keys s), (''bdeadbeef.dump'', b_keys s)]"
    by (simp_all add: mn em)
  show ?thesis using tb h r0 a0 b0 res cr wr by blast
qed

theorem C6_scenario_witness:
  "\<exists>options s.
     table (main (env_of sample_dump) ''m'' (Some ''card.mfd'')) = Some (options, s) \<and>
     header s = (0x01, 0xDEADBEEF) \<and>
     rows s ! 0 = (0, 0xA1A2A3A4A5A6, 0xB1B2B3B4B5B6) \<and>
     created (io (main (env_of sample_dump) ''m'' (Some ''card.mfd'')))
       = [''adeadbeef.dump'', ''bdeadbeef.dump'']"
  using C6_scenario [OF env_of_simps(1) sample_dump_length sample_dump_uid sample_dump_trailer
      env_of_simps(2) env_of_simps(2) env_of_simps(2)
      env_of_simps(3) env_of_simps(4) env_of_simps(3) env_of_simps(4), of "''card.mfd''"]
  by blast

text \<open>
  C7. For every well-formed key table the Proxmark buffer is exactly twice as long as
  the A buffer of the mfocGUI encoding, and the A and B buffers both have the length of
  the key region.
\<close>

theorem C7_linear_twice_gui:
  assumes "well_formed options a b" and "malloc_ok e 3"
  shows "\<exists>out. encode_linear e options a b = Some out
           \<and> length out = 2 * length (fst (encode_gui options a b))
           \<and> length (fst (encode_gui options a b)) = region options
           \<and> length (snd (encode_gui options a b)) = region options"
proof -
  note wf = well_formed_region [OF assms(1)]
  have g: "encode_gui options a b = (a, b)"
    by (rule encode_gui_well_formed [OF wf(5) wf(6)])
  have l: "encode_linear e options a b = Some (a @ b)"
    by (rule encode_linear_well_formed [OF assms(2) wf(5) wf(6)])
  show ?thesis unfolding g l using wf(5) wf(6) by simp
qed

theorem C7_linear_twice_gui_witness:
  "\<exists>out. encode_linear (env_of []) 0x69 sample_a sample_b = Some out
     \<and> length out = 2 * length (fst (encode_gui 0x69 sample_a sample_b))
     \<and> length (fst (encode_gui 0x69 sample_a sample_b)) = region 0x69
     \<and> length (snd (encode_gui 0x69 sample_a sample_b)) = region 0x69"
  using C7_linear_twice_gui [OF sample_well_formed env_of_simps(2), of "[]"] by simp

text \<open>
  C8. Both encodings are functions of the key table alone, and what they return does not
  depend on the run. For every well-formed key table, mfocGUI returns the two buffers as
  they are; Proxmark (its block allocated) returns the A buffer followed by the B buffer,
  whatever the memory of the block held before, so a second run, in any other environment
  that allocates the block, returns the same bytes. Neither fails on a well-formed table:
  no buffer is read or written outside its bounds (the overrun flag is left as it was).
  Neither performs input or output: the output side reaches \<open>write_keys\<close> exactly as it
  was before the encoding, and all that \<open>emit\<close> does to it is done by the calls of
  \<open>write_keys\<close> on the encoded buffers.
\<close>

theorem C8_encoders_pure:
  assumes "well_formed options (a_keys s) (b_keys s)"
    and "malloc_ok e 3" and "malloc_ok e' 3"
  shows "encode_gui options (a_keys s) (b_keys s) = (a_keys s, b_keys s)
         \<and> encode_linear e options (a_keys s) (b_keys s) = Some (a_keys s @ b_keys s)
         \<and> encode_linear e' options (a_keys s) (b_keys s)
             = encode_linear e options (a_keys s) (b_keys s)
         \<and> emit e options s w =
             (if options AND 0x0A = 0x02 then
                (case write_keys e (fst (encode_gui options (a_keys s) (b_keys s)))
                        (''a'' @ hex08 (bytes_to_num (uid s) 4) @ ''.dump'') (region options) w of
                   (Some err, w1) \<Rightarrow> (Some err, w1)
                 | (None, w1) \<Rightarrow>
                     write_keys e (snd (encode_gui options (a_keys s) (b_keys s)))
                       (''b'' @ hex08 (bytes_to_num (uid s) 4) @ ''.dump'') (region options) w1)
              else
                write_keys e (a_keys s @ b_keys s)
                  (hex08 (bytes_to_num (uid s) 4) @ ''.bin'') (region options * 2) w)"
proof -
  note wf = well_formed_region [OF assms(1)]
  have g: "encode_gui options (a_keys s) (b_keys s) = (a_keys s, b_keys s)"
    by (rule encode_gui_well_formed [OF wf(5) wf(6)])
  have l: "encode_linear e options (a_keys s) (b_keys s) = Some (a_keys s @ b_keys s)"
    by (rule encode_linear_well_formed [OF assms(2) wf(5) wf(6)])
  have l': "encode_linear e' options (a_keys s) (b_keys s) = Some (a_keys s @ b_keys s)"
    by (rule encode_linear_well_formed [OF assms(3) wf(5) wf(6)])
  have w: "w\<lparr>overrun := (overrun w \<or> length (a_keys s) < region options
                                  \<or> length (b_keys s) < region options)\<rparr> = w"
    using wf(5) wf(6) by simp
  have em: "emit e options s w =
      (if options AND 0x0A = 0x02 then
         (case write_keys e (a_keys s)
                 (''a'' @ hex08 (bytes_to_num (uid s) 4) @ ''.dump'') (region options) w of
            (Some err, w1) \<Rightarrow> (Some err, w1)
          | (None, w1) \<Rightarrow>
              write_keys e (b_keys s)
                (''b'' @ hex08 (bytes_to_num (uid s) 4) @ ''.dump'') (region options) w1)
       else
         write_keys e (a_keys s @ b_keys s)
           (hex08 (bytes_to_num (uid s) 4) @ ''.bin'') (region options * 2) w)"
    unfolding emit_def Let_def l option.case w ..
  show ?thesis unfolding g fst_conv snd_conv l l' using em by simp
qed

theorem C8_encoders_pure_witness:
  "encode_gui 0x69 (a_keys sample_locals) (b_keys sample_locals) = (sample_a, sample_b)
   \<and> encode_linear (env_of []) 0x69 (a_keys sample_locals) (b_keys sample_locals)
       = Some (sample_a @ sample_b)
   \<and> encode_linear (env_of sample_dump) 0x69 (a_keys sample_locals) (b_keys sample_locals)
       = encode_linear (env_of []) 0x69 (a_keys sample_locals) (b_keys sample_locals)
   \<and> emit (env_of []) 0x69 sample_locals world0 =
       write_keys (env_of []) (sample_a @ sample_b) (''deadbeef.bin'') 192 world0"
proof -
  have ab: "a_keys sample_locals = sample_a" "b_keys sample_locals = sample_b"
    by (simp_all add: sample_locals_def)
  have u: "bytes_to_num (uid sample_locals) 4 = 0xDEADBEEF"
    by (simp add: sample_locals_def uid_number [OF sample_dump_uid])
  have wf: "well_formed 0x69 (a_keys sample_locals) (b_keys sample_locals)"
    unfolding ab by (rule sample_well_formed)
  have r: "region 0x69 = 96" by (simp add: region_def)
  have m: "(0x69 :: byte) AND 0x0A \<noteq> 0x02" by simp
  from C8_encoders_pure [OF wf env_of_simps(2) env_of_simps(2),
      of "[]" "sample_dump" world0]
  show ?thesis unfolding ab u hex08_uid r using m by simp
qed

text \<open>
  C9 does not hold of the source. When \<open>fwrite\<close> writes nothing, \<open>write_keys\<close> returns
  at line 100 without the \<open>fclose\<close> of line 103: the run ends with the output handle still
  open. When the key buffers cannot be allocated, \<open>main\<close> returns at line 159 without the
  \<open>fclose(file)\<close> that the other paths perform (lines 204 and 234): the run ends with the
  input handle still open.
\<close>

theorem C9_handles_left_open:
  "result (main env_write_fails ''m'' (Some ''card.mfd'')) = Some (CannotWrite ''adeadbeef.dump'')
   \<and> opened (io (main env_write_fails ''m'' (Some ''card.mfd''))) = [OutputFile ''adeadbeef.dump'']
   \<and> result (main env_no_key_memory ''m'' (Some ''card.mfd'')) = Some NoMemory
   \<and> opened (io (main env_no_key_memory ''m'' (Some ''card.mfd''))) = [InputFile]"
proof -
  have h1: "''m'' \<noteq> []" and h2: "set ''m'' \<subseteq> {CHR ''m'', CHR ''p''}" by simp_all
  have h3: "fopen_rb env_write_fails ''card.mfd'' = Some sample_dump"
    by (simp add: env_write_fails_def env_of_def)
  have h4: "length sample_dump = 1024 \<or> length sample_dump = 4096"
    by (simp add: sample_dump_length)
  have m: "malloc_ok env_write_fails 0" "malloc_ok env_write_fails 1" "malloc_ok env_write_fails 2"
    by (simp_all add: env_write_fails_def env_of_def)
  from h1 h2 h3 h4 m obtain options o1 s where
    g: "getopt_loop ''m'' 0 = Inr options"
    and mn: "main env_write_fails ''m'' (Some ''card.mfd'') =
       \<lparr>result = fst (emit env_write_fails o1 s world0), table = Some (o1, s),
        reads = freads (infile s), io = snd (emit env_write_fails o1 s world0)\<rparr>"
    and us: "uid s = take 8 sample_dump"
    and md: "o1 AND 0x0A = options"
    by (rule decode_valid)
  from g have "options = 0x02" by simp
  with md have gui: "o1 AND 0x0A = 0x02" by simp
  have num: "bytes_to_num (uid s) 4 = 0xDEADBEEF"
    unfolding us by (rule uid_number [OF sample_dump_uid])
  have na: "''adeadbeef.dump'' = ''a'' @ hex08 (bytes_to_num (uid s) 4) @ ''.dump''"
    by (simp add: num hex08_uid)
  have w: "fopen_wb env_write_fails ''adeadbeef.dump''" "\<not> fwrite_ok env_write_fails ''adeadbeef.dump''"
    by (simp_all add: env_write_fails_def env_of_def)
  note em = emit_gui_write_fails [OF gui na w]
  have a: "result (main env_write_fails ''m'' (Some ''card.mfd'')) = Some (CannotWrite ''adeadbeef.dump'')"
    and b: "opened (io (main env_write_fails ''m'' (Some ''card.mfd''))) = [OutputFile ''adeadbeef.dump'']"
    by (simp_all add: mn em)
  have k: "fopen_rb env_no_key_memory ''card.mfd'' = Some sample_dump"
    "\<not> malloc_ok env_no_key_memory 0"
    by (simp_all add: env_no_key_memory_def env_of_def)
  have nz: "size_options (length sample_dump) 0x02 AND 0x05 \<noteq> 0"
    by (rule size_options_valid(1) [OF _ h4]) simp
  have mb: "main env_no_key_memory ''m'' (Some ''card.mfd'') =
      \<lparr>result = Some NoMemory, table = None, reads = [], io = world0\<lparr>opened := [InputFile]\<rparr>\<rparr>"
    unfolding main_def main_body_def k(1) option.case Let_def fseek_end_def ftell_def
    using nz k(2) by simp
  have c: "result (main env_no_key_memory ''m'' (Some ''card.mfd'')) = Some NoMemory"
    and d: "opened (io (main env_no_key_memory ''m'' (Some ''card.mfd''))) = [InputFile]"
    by (simp_all add: mb)
  show ?thesis using a b c d by simp
qed

text \<open>
  C10. On a valid dump every read lies inside the file: position plus length is at most
  the length of the dump for each \<open>fread\<close>, and the last read ends with the last byte
  (the last trailer starts at 0x3F0 of 1024 bytes, at 0xFF0 of 4096 bytes, and its 16 bytes
  end the file). No iteration leaves a key buffer (the fault flag stays down), every key
  read has 6 bytes and is written to the 6 bytes of its sector in its buffer, and after
  the loop both write pointers stand at the end of their buffers of 96 or 240 bytes:
  each buffer is filled exactly, with the A keys (the B keys) of all sectors in order, and
  nothing of what the memory held before is left.
\<close>

theorem C10_reads_in_bounds:
  assumes "opts \<noteq> []" and "set opts \<subseteq> {CHR ''m'', CHR ''p''}"
    and "fopen_rb e path = Some raw"
    and "length raw = 1024 \<or> length raw = 4096"
    and "malloc_ok e 0" and "malloc_ok e 1" and "malloc_ok e 2"
  shows "\<exists>options s.
           table (main e opts (Some path)) = Some (options, s) \<and>
           (\<forall>(p, k) \<in> set (reads (main e opts (Some path))). p + k \<le> length raw) \<and>
           last (reads (main e opts (Some path))) = (length raw - 6, 6) \<and>
           trailerCursor (key_count options - 1) + 16 = length raw \<and>
           trailerCursor (key_count options - 1) = (if length raw = 1024 then 0x3F0 else 0xFF0) \<and>
           \<not> fault s \<and>
           length (a_keys s) = region options \<and> length (b_keys s) = region options \<and>
           region options = (if length raw = 1024 then 96 else 240) \<and>
           aptr s = key_count options * KEY_SIZE \<and> bptr s = key_count options * KEY_SIZE \<and>
           aptr s = length (a_keys s) \<and> bptr s = length (b_keys s) \<and>
           a_keys s = concat (map (keyA raw) [0..<key_count options]) \<and>
           b_keys s = concat (map (keyB raw) [0..<key_count options]) \<and>
           (\<forall>i<key_count options.
              length (keyA raw i) = KEY_SIZE \<and> length (keyB raw i) = KEY_SIZE \<and>
              key_at (a_keys s) i = keyA raw i \<and> key_at (b_keys s) i = keyB raw i)"
proof -
  from assms obtain options o1 s where
    mn: "main e opts (Some path) =
       \<lparr>result = fst (emit e o1 s world0), table = Some (o1, s),
        reads = freads (infile s), io = snd (emit e o1 s world0)\<rparr>"
    and inv: "loop_inv raw (key_count o1) [(0, 8)] (key_count o1) s"
    and kc: "key_count o1 = (if length raw = 1024 then 16 else 40)"
    and reg: "region o1 = 6 * key_count o1"
    by (rule decode_valid)
  let ?n = "key_count o1"
  note fin = loop_inv_final [OF inv]
  have fits: "trailerCursor j + 16 \<le> length raw" if "j < ?n" for j
    using trailerCursor_fits [OF assms(4), of j] that kc by simp
  have t: "table (main e opts (Some path)) = Some (o1, s)" by (simp add: mn)
  have rd: "reads (main e opts (Some path)) = (0, 8) # key_reads ?n"
    by (simp add: mn fin(3))
  have npos: "0 < ?n" using kc by simp
  have b: "\<forall>(p, k) \<in> set (reads (main e opts (Some path))). p + k \<le> length raw"
  proof -
    have "p + k \<le> length raw" if "(p, k) \<in> set (key_reads ?n)" for p k
    proof -
      from key_reads_mem [OF that] obtain j where "j < ?n" "k = 6"
        "p = trailerCursor j \<or> p = trailerCursor j + 6 + 4" by blast
      with fits [of j] show ?thesis by auto
    qed
    moreover have "(0::nat) + 8 \<le> length raw" using assms(4) by auto
    ultimately show ?thesis unfolding rd by auto
  qed
  have tc: "trailerCursor (?n - 1) = (if length raw = 1024 then 0x3F0 else 0xFF0)"
  proof (cases "length raw = 1024")
    case True
    then have "?n - 1 = 15" using kc by simp
    then show ?thesis using True by (simp add: trailerCursor_closed)
  next
    case False
    then have "?n - 1 = 39" using kc by simp
    then show ?thesis using False by (simp add: trailerCursor_closed)
  qed
  have tl: "trailerCursor (?n - 1) + 16 = length raw"
    using assms(4) tc by auto
  have kn: "key_reads ?n \<noteq> []" using npos by (cases ?n) (simp_all add: key_reads_Suc)
  have l: "last (reads (main e opts (Some path))) = (length raw - 6, 6)"
    unfolding rd using kn key_reads_last [OF npos] tl by simp
  have rg: "region o1 = (if length raw = 1024 then 96 else 240)"
    using reg kc by simp
  have la: "\<forall>j<?n. length (keyA raw j) = 6" using fits by (simp add: keyA_length)
  have lb: "\<forall>j<?n. length (keyB raw j) = 6" using fits by (simp add: keyB_length)
  have ks: "\<forall>i<?n. length (keyA raw i) = KEY_SIZE \<and> length (keyB raw i) = KEY_SIZE \<and>
      key_at (a_keys s) i = keyA raw i \<and> key_at (b_keys s) i = keyB raw i"
  proof (intro allI impI)
    fix i assume i: "i < ?n"
    have a: "key_at (a_keys s) i = keyA raw i"
      unfolding fin(1) by (rule key_at_concat [OF la i])
    have b: "key_at (b_keys s) i = keyB raw i"
      unfolding fin(2) by (rule key_at_concat [OF lb i])
    show "length (keyA raw i) = KEY_SIZE \<and> length (keyB raw i) = KEY_SIZE \<and>
      key_at (a_keys s) i = keyA raw i \<and> key_at (b_keys s) i = keyB raw i"
      using a b la lb i by (simp add: KEY_SIZE_def)
  qed
  have ap: "aptr s = ?n * KEY_SIZE" "bptr s = ?n * KEY_SIZE"
    "aptr s = length (a_keys s)" "bptr s = length (b_keys s)"
    "length (a_keys s) = region o1" "length (b_keys s) = region o1"
    by (simp_all add: fin(6,7,8,9) reg KEY_SIZE_def)
  show ?thesis
    using t b l tl tc fin(10) ap rg fin(1) fin(2) ks by blast
qed

theorem C10_reads_in_bounds_witness:
  "\<exists>options s.
     table (main (env_of sample_dump) ''m'' (Some ''card.mfd'')) = Some (options, s) \<and>
     last (reads (main (env_of sample_dump) ''m'' (Some ''card.mfd''))) = (1018, 6) \<and>
     \<not> fault s \<and> aptr s = length (a_keys s) \<and> bptr s = length (b_keys s) \<and>
     length (a_keys s) = region options \<and> length (b_keys s) = region options \<and>
     region options = 96 \<and>
     a_keys s = concat (map (keyA sample_dump) [0..<key_count options]) \<and>
     b_keys s = concat (map (keyB sample_dump) [0..<key_count options])"
proof -
  have h1: "''m'' \<noteq> []" and h2: "set ''m'' \<subseteq> {CHR ''m'', CHR ''p''}" by simp_all
  have h4: "length sample_dump = 1024 \<or> length sample_dump = 4096"
    by (simp add: sample_dump_length)
  from C10_reads_in_bounds [OF h1 h2 env_of_simps(1) h4 env_of_simps(2) env_of_simps(2) env_of_simps(2),
      of "''card.mfd''"]
  show ?thesis by (simp add: sample_dump_length) blast
qed

end
